theory Spec2Isabelle
  imports Complex_Main "HOL-Library.Log_Nat" "HOL-Library.Sublist"
begin

section \<open>ZebraCHOP: the exon annotation of guide reports (reformat.py)\<close>

text \<open>
  The program reads every \<^verbatim>\<open>.tsv\<close> report of a directory, asks the Ensembl REST service
  for the exons of the gene the file is named after, and writes to one text file the first
  five rows whose position falls into an exon of the first half of the gene.

  The embedding follows the source function by function. Exceptions are values of
  \<open>error + 'a\<close>; the network, the output file, the printed messages and the progress bar
  are fields of an explicit state that every effectful function takes and returns.
\<close>

subsection \<open>Exceptions\<close>

text \<open>
  One constructor for each kind of exception the source can raise:
  \<^item> \<open>OverflowError\<close>: an integer too large to convert to a float;
  \<^item> \<open>RemoteError\<close>: any exception of \<^verbatim>\<open>fetch_exon_data\<close> (a failed connection, the
    exception of \<^verbatim>\<open>raise_for_status\<close>, a body that is not JSON, an exon without
    \<^verbatim>\<open>start\<close> or \<^verbatim>\<open>end\<close>);
  \<^item> \<open>IndexError\<close>: \<^verbatim>\<open>row[2]\<close> on a row of fewer than three fields;
  \<^item> \<open>ValueError\<close>: the unpacking of \<^verbatim>\<open>split(':')\<close> into two names, and \<^verbatim>\<open>int(position)\<close>;
  \<^item> \<open>OSError\<close>: \<^verbatim>\<open>os.listdir\<close> and \<^verbatim>\<open>open\<close>;
  \<^item> \<open>ReaderError\<close>: any exception of the csv reader when it is asked for the next record.
\<close>

datatype error = OverflowError | RemoteError | IndexError | ValueError | OSError | ReaderError

subsection \<open>The threshold\<close>

text \<open>
  \<^verbatim>\<open>exon_count / 2.0\<close> converts the integer to an IEEE 754 double first. The conversion
  rounds to 53 significant bits, ties to even, and raises OverflowError when the rounded
  value reaches \<open>2 ^ 1024\<close>. The double of an integer is itself an integer, so the model
  returns it as an \<open>int\<close>. Halving a double of magnitude at least 1 is exact, hence
  \<^verbatim>\<open>math.ceil\<close> and \<^verbatim>\<open>math.floor\<close> are taken of the exact half.
\<close>

definition int_to_double :: "int \<Rightarrow> error + int" where
  "int_to_double n =
     (let a = \<bar>n\<bar>; e = bitlen a - 53 in
      if e \<le> 0 then Inr n
      else
        let k = nat e; q = a div 2 ^ k; r = a mod 2 ^ k; half = 2 ^ (k - 1);
            m = (if half < r \<or> (r = half \<and> odd q) then q + 1 else q);
            d = m * 2 ^ k
        in if 2 ^ 1024 \<le> d then Inl OverflowError else Inr (sgn n * d))"

definition calculate_exon_threshold :: "int \<Rightarrow> error + int" where
  "calculate_exon_threshold exon_count =
     (case int_to_double exon_count of
        Inl e \<Rightarrow> Inl e
      | Inr d \<Rightarrow>
          if exon_count \<le> 5 then Inr (- ((- d) div 2))
          else Inr (d div 2))"

subsection \<open>The annotation service and the state of a run\<close>

record exon =
  exon_start :: int
  exon_end :: int

text \<open>
  What one request to the service comes to, as far as \<^verbatim>\<open>fetch_exon_data\<close> tells the
  cases apart: an exception, a JSON object with the key \<^verbatim>\<open>error\<close>, or a JSON object whose
  \<^verbatim>\<open>Transcript\<close> list (empty when the key is absent) holds the \<^verbatim>\<open>Exon\<close> list of each
  transcript.
\<close>

datatype response = Failure | ErrorBody | Transcripts "exon list list"

text \<open>
  The service is outside the program and may answer the same question differently at
  different times: it is a function of the number of requests made before and of the
  gene name.
\<close>

type_synonym service = "nat \<Rightarrow> string \<Rightarrow> response"

datatype message =
    NoExonsFound string string
  | ProcessedAll
  | ErrorOccurred error

text \<open>
  \<open>requests\<close> counts the HTTP requests sent; \<open>output_file\<close> holds the lines written to the
  output file, one element for each \<^verbatim>\<open>write\<close> call without its final newline;
  \<open>messages\<close> holds the lines printed; \<open>progress\<close> is the position of the progress bar.
\<close>

record world =
  requests :: nat
  output_file :: "string list"
  messages :: "message list"
  progress :: nat

definition init_world :: world where
  "init_world = \<lparr>requests = 0, output_file = [], messages = [], progress = 0\<rparr>"

definition fetch_exon_data :: "service \<Rightarrow> string \<Rightarrow> world \<Rightarrow> (error + exon list option) \<times> world" where
  "fetch_exon_data svc gene_name s =
     (let s' = s\<lparr>requests := Suc (requests s)\<rparr> in
      case svc (requests s) gene_name of
        Failure \<Rightarrow> (Inl RemoteError, s')
      | ErrorBody \<Rightarrow> (Inr None, s')
      | Transcripts ts \<Rightarrow> (Inr (Some (concat ts)), s'))"

subsection \<open>The classifier\<close>

text \<open>The \<^verbatim>\<open>for\<close> loop of \<^verbatim>\<open>find_exon\<close> over \<^verbatim>\<open>enumerate(exons, start=1)\<close>.\<close>

fun find_exon_loop :: "nat \<Rightarrow> exon list \<Rightarrow> int \<Rightarrow> nat option" where
  "find_exon_loop index [] coordinate = None"
| "find_exon_loop index (exon # exons) coordinate =
     (if exon_start exon \<le> coordinate \<and> coordinate \<le> exon_end exon then Some index
      else find_exon_loop (Suc index) exons coordinate)"

definition find_exon :: "service \<Rightarrow> string \<Rightarrow> int \<Rightarrow> string \<Rightarrow> world \<Rightarrow> (error + nat option) \<times> world" where
  "find_exon svc chromosome coordinate gene_name s =
     (case fetch_exon_data svc gene_name s of
        (Inl e, s') \<Rightarrow> (Inl e, s')
      | (Inr None, s') \<Rightarrow> (Inr None, s')
      | (Inr (Some exons), s') \<Rightarrow>
          if exons = [] then (Inr None, s')
          else (Inr (find_exon_loop 1 exons coordinate), s'))"

subsection \<open>Strings\<close>

text \<open>
  A character is a Unicode code point below 256, and a string a sequence of them, as
  Python's \<^verbatim>\<open>str\<close> counts them. The functions below are the string operations of Python
  the source calls, on such strings.
\<close>

text \<open>\<^verbatim>\<open>s.endswith(suffix)\<close>.\<close>

definition endswith :: "string \<Rightarrow> string \<Rightarrow> bool" where
  "endswith s suf = (length suf \<le> length s \<and> drop (length s - length suf) s = suf)"

text \<open>
  \<^verbatim>\<open>os.path.splitext(name)[0]\<close> for a name without a directory separator, as
  \<^verbatim>\<open>os.listdir\<close> returns it: the name up to its last dot, unless only dots come before
  that dot.
\<close>

definition splitext_root :: "string \<Rightarrow> string" where
  "splitext_root p =
     (let ext = takeWhile (\<lambda>c. c \<noteq> CHR ''.'') (rev p) in
      if length ext = length p then p
      else
        let stem = take (length p - length ext - 1) p in
        if list_all (\<lambda>c. c = CHR ''.'') stem then p else stem)"

text \<open>\<^verbatim>\<open>s.split(sep)\<close> for a separator of one character.\<close>

fun str_split :: "char \<Rightarrow> string \<Rightarrow> string list" where
  "str_split sep [] = [[]]"
| "str_split sep (c # cs) =
     (if c = sep then [] # str_split sep cs
      else case str_split sep cs of
             [] \<Rightarrow> [[c]]
           | p # ps \<Rightarrow> (c # p) # ps)"

text \<open>\<^verbatim>\<open>s.replace('chr', '')\<close>: every occurrence goes, from left to right.\<close>

fun remove_chr :: "string \<Rightarrow> string" where
  "remove_chr (a # b # c # rest) =
     (if [a, b, c] = ''chr'' then remove_chr rest else a # remove_chr (b # c # rest))"
| "remove_chr s = s"

text \<open>
  \<^verbatim>\<open>int(s)\<close>: whitespace around, an optional sign, then decimal digits, where one
  underscore may stand between two digits. The whitespace \<^verbatim>\<open>int\<close> strips is tab, line
  feed, vertical tab, form feed, carriage return, space, and the two blanks above 127,
  U+0085 and U+00A0; the only decimal digits below 256 are \<^verbatim>\<open>0\<close> to \<^verbatim>\<open>9\<close>. CPython refuses
  more than 4300 digits.
\<close>

definition is_space :: "char \<Rightarrow> bool" where
  "is_space c = (c \<in> set [CHR 0x09, CHR 0x0A, CHR 0x0B, CHR 0x0C, CHR 0x0D, CHR 0x20,
                           CHR 0x85, CHR 0xA0])"

definition is_digit :: "char \<Rightarrow> bool" where
  "is_digit c = (c \<in> set ''0123456789'')"

definition digit_value :: "char \<Rightarrow> int" where
  "digit_value c = int (of_char c) - 48"

fun parse_digits :: "int \<Rightarrow> string \<Rightarrow> int option" where
  "parse_digits acc [] = Some acc"
| "parse_digits acc (c # cs) =
     (if is_digit c then parse_digits (acc * 10 + digit_value c) cs
      else if c = CHR ''_'' \<and> cs \<noteq> [] \<and> is_digit (hd cs) then parse_digits acc cs
      else None)"

definition parse_unsigned :: "string \<Rightarrow> int option" where
  "parse_unsigned body =
     (case body of
        [] \<Rightarrow> None
      | c # cs \<Rightarrow>
          if \<not> is_digit c then None
          else if 4300 < length (filter is_digit body) then None
          else parse_digits 0 body)"

definition int_of_str :: "string \<Rightarrow> int option" where
  "int_of_str s =
     (let t = rev (dropWhile is_space (rev (dropWhile is_space s))) in
      case t of
        [] \<Rightarrow> None
      | c # cs \<Rightarrow>
          if c = CHR ''-'' then map_option uminus (parse_unsigned cs)
          else if c = CHR ''+'' then parse_unsigned cs
          else parse_unsigned t)"

text \<open>\<^verbatim>\<open>str(n)\<close> of a natural number, as \<^verbatim>\<open>format\<close> prints the exon number.\<close>

fun str_nat :: "nat \<Rightarrow> string" where
  "str_nat n =
     (if n < 10 then [char_of (48 + n)]
      else str_nat (n div 10) @ [char_of (48 + n mod 10)])"

subsection \<open>The rows of a report\<close>

text \<open>
  A row is the list of fields the csv reader yields for one line; an empty line yields
  the empty list.
\<close>

type_synonym row = "string list"

text \<open>\<^verbatim>\<open>row[1][:-3] if len(row[1]) > 3 else row[1]\<close>.\<close>

definition second_cell :: "string \<Rightarrow> string" where
  "second_cell cell = (if 3 < length cell then take (length cell - 3) cell else cell)"

text \<open>The line \<^verbatim>\<open>"[{0}]  Efficiency Score: [{1}]  {2}"\<close> with the exon information.\<close>

definition format_line :: "string \<Rightarrow> string \<Rightarrow> nat \<Rightarrow> string" where
  "format_line label score exon_number =
     ''['' @ label @ '']  Efficiency Score: ['' @ score @ '']  '' @
     ''Exon number: '' @ str_nat exon_number"

text \<open>
  The body of the row loop for a non-empty row. The result says whether the row was
  kept, that is, whether \<^verbatim>\<open>count\<close> is incremented.
\<close>

definition process_row :: "service \<Rightarrow> string \<Rightarrow> int \<Rightarrow> row \<Rightarrow> world \<Rightarrow> (error + bool) \<times> world" where
  "process_row svc gene_name exon_threshold row s =
     (if length row < 3 then (Inl IndexError, s)
      else
        case str_split (CHR '':'') (row ! 2) of
          [chromosome, position] \<Rightarrow>
            (case int_of_str position of
               None \<Rightarrow> (Inl ValueError, s)
             | Some pos \<Rightarrow>
                 (case find_exon svc (remove_chr chromosome) pos gene_name s of
                    (Inl e, s') \<Rightarrow> (Inl e, s')
                  | (Inr None, s') \<Rightarrow> (Inr False, s')
                  | (Inr (Some exon_number), s') \<Rightarrow>
                      if int exon_number \<le> exon_threshold
                      then (Inr True,
                            s'\<lparr>output_file := output_file s' @
                               [format_line (second_cell (row ! 1)) (last row) exon_number]\<rparr>)
                      else (Inr False, s')))
        | _ \<Rightarrow> (Inl ValueError, s))"

text \<open>
  What the csv reader does when the loop asks it for the next record: it delivers the
  record as a row, or it raises (\<^verbatim>\<open>csv.Error\<close> for a field over the size limit, a decoding
  error, an I/O error).
\<close>

datatype reader_item = Row row | Unreadable

text \<open>
  The row loop, from a given \<^verbatim>\<open>count\<close>, over what the reader does for the records left
  in the file. The \<^verbatim>\<open>for\<close> statement asks the reader for the next record first, and only
  then the body tests \<^verbatim>\<open>count\<close>. The loop returns the final \<^verbatim>\<open>count\<close> when it ends, by
  exhaustion or by \<^verbatim>\<open>break\<close>.
\<close>

fun scan_rows :: "service \<Rightarrow> string \<Rightarrow> int \<Rightarrow> reader_item list \<Rightarrow> nat \<Rightarrow> world \<Rightarrow> (error + nat) \<times> world" where
  "scan_rows svc gene_name exon_threshold [] count s = (Inr count, s)"
| "scan_rows svc gene_name exon_threshold (Unreadable # items) count s = (Inl ReaderError, s)"
| "scan_rows svc gene_name exon_threshold (Row row # items) count s =
     (if 5 \<le> count then (Inr count, s)
      else if row = [] then scan_rows svc gene_name exon_threshold items count s
      else
        case process_row svc gene_name exon_threshold row s of
          (Inl e, s') \<Rightarrow> (Inl e, s')
        | (Inr kept, s') \<Rightarrow>
            scan_rows svc gene_name exon_threshold items (if kept then count + 1 else count) s')"

subsection \<open>The files of the directory\<close>

text \<open>
  A directory entry is a name with what the csv reader does for the records of the file,
  header record included, or \<open>None\<close> when the file cannot be opened.
\<close>

type_synonym entry = "string \<times> reader_item list option"

text \<open>
  The body of the file loop for a name that ends in \<^verbatim>\<open>.tsv\<close>. The header record is
  asked of the reader, by \<^verbatim>\<open>next(tsv_reader, None)\<close>, before the two header lines are
  written.
\<close>

definition process_file :: "service \<Rightarrow> entry \<Rightarrow> world \<Rightarrow> (error + unit) \<times> world" where
  "process_file svc file s =
     (let file_name = fst file; gene_name = splitext_root file_name in
      case fetch_exon_data svc gene_name s of
        (Inl e, s1) \<Rightarrow> (Inl e, s1)
      | (Inr exons, s1) \<Rightarrow>
          (let found = (case exons of None \<Rightarrow> [] | Some l \<Rightarrow> l) in
           if found = [] then
             (Inr (), s1\<lparr>messages := messages s1 @ [NoExonsFound gene_name file_name],
                         progress := progress s1 + 1\<rparr>)
           else
             (case calculate_exon_threshold (int (length found)) of
                Inl e \<Rightarrow> (Inl e, s1)
              | Inr exon_threshold \<Rightarrow>
                  (case snd file of
                     None \<Rightarrow> (Inl OSError, s1)
                   | Some items \<Rightarrow>
                       if items \<noteq> [] \<and> hd items = Unreadable then (Inl ReaderError, s1)
                       else
                         (let s2 = s1\<lparr>output_file := output_file s1 @
                                       [gene_name, replicate (length gene_name) (CHR ''='')]\<rparr>
                          in (case scan_rows svc gene_name exon_threshold (tl items) 0 s2 of
                                (Inl e, s3) \<Rightarrow> (Inl e, s3)
                              | (Inr count, s3) \<Rightarrow>
                                  (Inr (), s3\<lparr>output_file := output_file s3 @ [''''],
                                              progress := progress s3 + 1\<rparr>)))))))"

fun process_files :: "service \<Rightarrow> entry list \<Rightarrow> world \<Rightarrow> (error + unit) \<times> world" where
  "process_files svc [] s = (Inr (), s)"
| "process_files svc (file # files) s =
     (if endswith (fst file) ''.tsv'' then
        (case process_file svc file s of
           (Inl e, s') \<Rightarrow> (Inl e, s')
         | (Inr u, s') \<Rightarrow> process_files svc files s')
      else process_files svc files s)"

text \<open>
  The whole run. \<open>listing\<close> is what \<^verbatim>\<open>os.listdir\<close> returns, \<open>None\<close> when it raises;
  \<open>writable\<close> says whether the output file can be opened for writing. The result is the
  state the run ends in.
\<close>

definition read_tsv_files_in_directory_and_write_output :: "service \<Rightarrow> entry list option \<Rightarrow> bool \<Rightarrow> world" where
  "read_tsv_files_in_directory_and_write_output svc listing writable =
     (case listing of
        None \<Rightarrow> init_world\<lparr>messages := [ErrorOccurred OSError]\<rparr>
      | Some files \<Rightarrow>
          (if \<not> writable then init_world\<lparr>messages := [ErrorOccurred OSError]\<rparr>
           else
             (case process_files svc files init_world of
                (Inl e, s) \<Rightarrow> s\<lparr>messages := messages s @ [ErrorOccurred e]\<rparr>
              | (Inr u, s) \<Rightarrow> s\<lparr>messages := messages s @ [ProcessedAll]\<rparr>)))"

subsection \<open>Notions of the specification\<close>

text \<open>
  The position a row carries: the integer after the colon of its third field, when the
  row has three fields and the field has that shape.
\<close>

definition row_position :: "row \<Rightarrow> int option" where
  "row_position row =
     (if length row < 3 then None
      else case str_split (CHR '':'') (row ! 2) of
             [chromosome, position] \<Rightarrow> int_of_str position
           | _ \<Rightarrow> None)"

text \<open>
  A row qualifies for a gene with the exon list \<open>exons\<close> and the threshold \<open>thr\<close> when it
  is not empty, carries a position, and the first exon containing the position has an
  ordinal of at most \<open>thr\<close>.
\<close>

definition qualifying :: "exon list \<Rightarrow> int \<Rightarrow> row \<Rightarrow> bool" where
  "qualifying exons thr row =
     (row \<noteq> [] \<and>
      (case row_position row of
         None \<Rightarrow> False
       | Some pos \<Rightarrow>
           (case find_exon_loop 1 exons pos of
              None \<Rightarrow> False
            | Some n \<Rightarrow> int n \<le> thr)))"

text \<open>The output line of a row that carries a position inside an exon of \<open>exons\<close>.\<close>

definition kept_line :: "exon list \<Rightarrow> row \<Rightarrow> string" where
  "kept_line exons row =
     (case row_position row of
        None \<Rightarrow> []
      | Some pos \<Rightarrow>
          (case find_exon_loop 1 exons pos of
             None \<Rightarrow> []
           | Some n \<Rightarrow> format_line (second_cell (row ! 1)) (last row) n))"

subsection \<open>Example inputs\<close>

text \<open>
  A gene with two transcripts whose three exons overlap: the third exon lies inside the
  first.
\<close>

definition service_example :: service where
  "service_example n gene_name =
     Transcripts [[\<lparr>exon_start = 10, exon_end = 20\<rparr>, \<lparr>exon_start = 25, exon_end = 30\<rparr>],
                  [\<lparr>exon_start = 15, exon_end = 18\<rparr>]]"

text \<open>A gene with one exon, from 1 to 100, at every request.\<close>

definition service_one_exon :: service where
  "service_one_exon n gene_name = Transcripts [[\<lparr>exon_start = 1, exon_end = 100\<rparr>]]"

text \<open>
  A service whose answer changes: the exon from 1 to 100 at the first request, an exon
  from 200 to 300 at every later one.
\<close>

definition service_drift :: service where
  "service_drift n gene_name =
     (if n = 0 then Transcripts [[\<lparr>exon_start = 1, exon_end = 100\<rparr>]]
      else Transcripts [[\<lparr>exon_start = 200, exon_end = 300\<rparr>]])"

text \<open>A service that knows no gene.\<close>

definition service_unknown :: service where
  "service_unknown n gene_name = ErrorBody"

text \<open>
  Rows of a report: the header, a row at position 50, a row whose third field has no
  colon, a row whose position is not a number, and a row of one field.
\<close>

definition header_row :: row where
  "header_row = [''name'', ''sequence'', ''location'', ''score'']"

definition good_row :: row where
  "good_row = [''guide1'', ''ACGTCCC'', ''chr1:50'', ''0.7'']"

definition no_colon_row :: row where
  "no_colon_row = [''guide2'', ''ACGTCCC'', ''chr1-50'', ''0.6'']"

definition no_number_row :: row where
  "no_number_row = [''guide3'', ''ACGTCCC'', ''chr1:fifty'', ''0.5'']"

definition short_row :: row where
  "short_row = [''guide4'']"

text \<open>A service that knows the gene \<^verbatim>\<open>geneA\<close>, with one exon from 1 to 100, and no other.\<close>

definition service_geneA :: service where
  "service_geneA n gene_name =
     (if gene_name = ''geneA'' then Transcripts [[\<lparr>exon_start = 1, exon_end = 100\<rparr>]]
      else ErrorBody)"

section \<open>Properties\<close>

subsection \<open>The threshold\<close>

lemma int_to_double_exact: "\<bar>n\<bar> < 2 ^ 53 \<Longrightarrow> int_to_double n = Inr n"
  unfolding int_to_double_def Let_def
  using bitlen_le_iff_power[of "\<bar>n\<bar>" 53] by simp

lemma half_ceiling: "\<lceil>real_of_int n / 2\<rceil> = - ((- n) div 2)"
  using ceiling_divide_eq_div[of n 2] by simp

lemma half_floor: "\<lfloor>real_of_int n / 2\<rfloor> = n div 2"
  using floor_divide_of_int_eq[of n 2, where ?'a = real] by simp

lemma threshold_exact:
  assumes "\<bar>n\<bar> < 2 ^ 53"
  shows "calculate_exon_threshold n =
           Inr (if n \<le> 5 then \<lceil>real_of_int n / 2\<rceil> else \<lfloor>real_of_int n / 2\<rfloor>)"
  using int_to_double_exact[OF assms]
  by (simp add: calculate_exon_threshold_def half_ceiling half_floor)

lemma threshold_edge:
  "calculate_exon_threshold 9007199254740992 = Inr 4503599627370496"
  "calculate_exon_threshold 9007199254740993 = Inr 4503599627370496"
  "calculate_exon_threshold 9007199254740994 = Inr 4503599627370497"
  by code_simp+

lemma threshold_small:
  "calculate_exon_threshold 0 = Inr 0"
  "calculate_exon_threshold 1 = Inr 1"
  "calculate_exon_threshold 5 = Inr 3"
  "calculate_exon_threshold 6 = Inr 3"
  "calculate_exon_threshold 7 = Inr 3"
  by code_simp+

text \<open>
  C1, as stated, fails: the count \<open>2 ^ 53 + 3\<close> is above 5, its half rounded down is
  \<open>2 ^ 52 + 1\<close>, and the function returns \<open>2 ^ 52 + 2\<close>, because the conversion of the
  count to a double rounds it to \<open>2 ^ 53 + 4\<close> before the division.
\<close>

theorem calculate_exon_threshold_large_counterexample:
  "calculate_exon_threshold 9007199254740995 = Inr 4503599627370498 \<and>
   \<lfloor>real_of_int 9007199254740995 / 2\<rfloor> = 4503599627370497"
  by (simp add: half_floor) code_simp

text \<open>
  C1, amended: for every exon count from 0 to \<open>2 ^ 53 + 2\<close> the threshold is the count
  halved, rounded up when the count is at most 5 and rounded down when it is above 5; the
  thresholds of 5, 6, 7, 1 and 0 are 3, 3, 3, 1 and 0.
\<close>

theorem calculate_exon_threshold_spec:
  "(0 \<le> n \<and> n \<le> 2 ^ 53 + 2 \<longrightarrow>
      calculate_exon_threshold n =
        Inr (if n \<le> 5 then \<lceil>real_of_int n / 2\<rceil> else \<lfloor>real_of_int n / 2\<rfloor>)) \<and>
   calculate_exon_threshold 5 = Inr 3 \<and> calculate_exon_threshold 6 = Inr 3 \<and>
   calculate_exon_threshold 7 = Inr 3 \<and> calculate_exon_threshold 1 = Inr 1 \<and>
   calculate_exon_threshold 0 = Inr 0"
proof -
  have "calculate_exon_threshold n =
          Inr (if n \<le> 5 then \<lceil>real_of_int n / 2\<rceil> else \<lfloor>real_of_int n / 2\<rfloor>)"
    if lo: "0 \<le> n" and hi: "n \<le> 2 ^ 53 + 2"
  proof -
    consider "n < 2 ^ 53" | "n = 9007199254740992" | "n = 9007199254740993"
      | "n = 9007199254740994"
      using hi by fastforce
    then show ?thesis
    proof cases
      case 1
      with lo have "\<bar>n\<bar> < 2 ^ 53" by simp
      then show ?thesis by (rule threshold_exact)
    next
      case 2
      then show ?thesis by (simp add: threshold_edge half_floor)
    next
      case 3
      then show ?thesis by (simp add: threshold_edge half_floor)
    next
      case 4
      then show ?thesis by (simp add: threshold_edge half_floor)
    qed
  qed
  then show ?thesis by (simp add: threshold_small)
qed

theorem calculate_exon_threshold_spec_witness:
  "(0::int) \<le> 8 \<and> (8::int) \<le> 2 ^ 53 + 2 \<and> calculate_exon_threshold 8 = Inr 4"
  using calculate_exon_threshold_spec [of 8] by (simp add: half_floor)

subsection \<open>The classifier\<close>

lemma find_exon_loop_None:
  "find_exon_loop k exons x = None \<longleftrightarrow>
     (\<forall>e \<in> set exons. \<not> (exon_start e \<le> x \<and> x \<le> exon_end e))"
  by (induction exons arbitrary: k) auto

lemma find_exon_loop_Some:
  "find_exon_loop k exons x = Some i \<longleftrightarrow>
     k \<le> i \<and> i < k + length exons \<and>
     (exon_start (exons ! (i - k)) \<le> x \<and> x \<le> exon_end (exons ! (i - k))) \<and>
     (\<forall>j < i - k. \<not> (exon_start (exons ! j) \<le> x \<and> x \<le> exon_end (exons ! j)))"
proof (induction exons arbitrary: k)
  case Nil
  then show ?case by simp
next
  case (Cons e es)
  show ?case
  proof (cases "exon_start e \<le> x \<and> x \<le> exon_end e")
    case True
    then show ?thesis
      by (auto simp: nth_Cons split: nat.splits)
  next
    case False
    show ?thesis
    proof (cases "i \<le> k")
      case True
      with False show ?thesis
        using Cons.IH[of "Suc k"] by auto
    next
      case gt: False
      then obtain m where m: "i - k = Suc m" "i - Suc k = m"
        by (metis Suc_diff_Suc not_le_imp_less)
      with gt False show ?thesis
        using Cons.IH[of "Suc k"] by (auto simp: less_Suc_eq_0_disj)
    qed
  qed
qed

lemma find_exon_eq:
  "find_exon svc chromosome x gene_name s =
     ((case svc (requests s) gene_name of
         Failure \<Rightarrow> Inl RemoteError
       | ErrorBody \<Rightarrow> Inr None
       | Transcripts ts \<Rightarrow> Inr (find_exon_loop 1 (concat ts) x)),
      s\<lparr>requests := Suc (requests s)\<rparr>)"
proof (cases "svc (requests s) gene_name")
  case (Transcripts ts)
  then show ?thesis
    by (cases "concat ts")
       (simp_all add: find_exon_def fetch_exon_data_def Let_def del: concat_eq_Nil_conv)
qed (simp_all add: find_exon_def fetch_exon_data_def Let_def)

text \<open>
  C2: when the service returns the exon lists \<open>ts\<close>, the classifier returns the 1-based
  position, in the flattened list, of the first exon with \<open>start \<le> coordinate \<le> end\<close>:
  the exon at that position contains the coordinate and no earlier one does. It returns
  \<open>None\<close> exactly when no exon contains the coordinate, in particular for the empty list.
\<close>

theorem find_exon_first_match:
  assumes "svc (requests s) gene_name = Transcripts ts"
  shows "\<exists>r. fst (find_exon svc chromosome coordinate gene_name s) = Inr r \<and>
           (concat ts = [] \<longrightarrow> r = None) \<and>
           (r = None \<longleftrightarrow>
              (\<forall>e \<in> set (concat ts). \<not> (exon_start e \<le> coordinate \<and> coordinate \<le> exon_end e))) \<and>
           (\<forall>i. r = Some i \<longleftrightarrow>
              1 \<le> i \<and> i \<le> length (concat ts) \<and>
              exon_start (concat ts ! (i - 1)) \<le> coordinate \<and>
              coordinate \<le> exon_end (concat ts ! (i - 1)) \<and>
              (\<forall>j < i - 1. \<not> (exon_start (concat ts ! j) \<le> coordinate \<and>
                                coordinate \<le> exon_end (concat ts ! j))))"
proof -
  let ?r = "find_exon_loop 1 (concat ts) coordinate"
  have a: "fst (find_exon svc chromosome coordinate gene_name s) = Inr ?r"
    using assms by (simp add: find_exon_eq)
  have b: "concat ts = [] \<longrightarrow> ?r = None"
    by (simp del: concat_eq_Nil_conv)
  have c: "?r = None \<longleftrightarrow>
      (\<forall>e \<in> set (concat ts). \<not> (exon_start e \<le> coordinate \<and> coordinate \<le> exon_end e))"
    by (rule find_exon_loop_None)
  have d: "?r = Some i \<longleftrightarrow>
              1 \<le> i \<and> i \<le> length (concat ts) \<and>
              exon_start (concat ts ! (i - 1)) \<le> coordinate \<and>
              coordinate \<le> exon_end (concat ts ! (i - 1)) \<and>
              (\<forall>j < i - 1. \<not> (exon_start (concat ts ! j) \<le> coordinate \<and>
                                coordinate \<le> exon_end (concat ts ! j)))" for i
    using find_exon_loop_Some[of 1 "concat ts" coordinate i] by auto
  show ?thesis
    by (rule exI[of _ ?r]) (intro conjI allI a b c d)
qed

theorem find_exon_first_match_witness:
  "service_example (requests init_world) ''rx3'' =
     Transcripts [[\<lparr>exon_start = 10, exon_end = 20\<rparr>, \<lparr>exon_start = 25, exon_end = 30\<rparr>],
                  [\<lparr>exon_start = 15, exon_end = 18\<rparr>]] \<and>
   fst (find_exon service_example ''1'' 16 ''rx3'' init_world) = Inr (Some 1) \<and>
   fst (find_exon service_example ''1'' 26 ''rx3'' init_world) = Inr (Some 2) \<and>
   fst (find_exon service_example ''1'' 5 ''rx3'' init_world) = Inr None"
proof -
  have h: "service_example (requests init_world) ''rx3'' =
     Transcripts [[\<lparr>exon_start = 10, exon_end = 20\<rparr>, \<lparr>exon_start = 25, exon_end = 30\<rparr>],
                  [\<lparr>exon_start = 15, exon_end = 18\<rparr>]]"
    by (simp add: service_example_def)
  from find_exon_first_match[of service_example init_world "''rx3''" _ "''1''" 16, OF h]
  obtain r where r: "fst (find_exon service_example ''1'' 16 ''rx3'' init_world) = Inr r"
    and "r = Some 1 \<longleftrightarrow> True"
    by auto
  then have "fst (find_exon service_example ''1'' 16 ''rx3'' init_world) = Inr (Some 1)"
    by simp
  with h show ?thesis by (simp add: find_exon_eq)
qed

subsection \<open>Rows and the row loop: auxiliary facts\<close>

lemma str_split_not_Nil: "str_split sep s \<noteq> []"
  by (induction s) (auto split: list.splits)

lemma str_split_no_sep: "sep \<notin> set s \<Longrightarrow> str_split sep s = [s]"
  by (induction s) auto

lemma str_split_sep: "sep \<notin> set c \<Longrightarrow> str_split sep (c @ sep # p) = c # str_split sep p"
  by (induction c) auto

lemma str_split_pair:
  "sep \<notin> set c \<Longrightarrow> sep \<notin> set p \<Longrightarrow> str_split sep (c @ sep # p) = [c, p]"
  by (simp add: str_split_sep str_split_no_sep)

lemma process_row_short:
  "length row < 3 \<Longrightarrow> process_row svc g thr row s = (Inl IndexError, s)"
  by (simp add: process_row_def)

lemma process_row_parsed:
  assumes "3 \<le> length row" "str_split (CHR '':'') (row ! 2) = [c, p]" "int_of_str p = Some pos"
  shows "process_row svc g thr row s =
     (case svc (requests s) g of
        Failure \<Rightarrow> (Inl RemoteError, s\<lparr>requests := Suc (requests s)\<rparr>)
      | ErrorBody \<Rightarrow> (Inr False, s\<lparr>requests := Suc (requests s)\<rparr>)
      | Transcripts ts \<Rightarrow>
          (case find_exon_loop 1 (concat ts) pos of
             None \<Rightarrow> (Inr False, s\<lparr>requests := Suc (requests s)\<rparr>)
           | Some n \<Rightarrow>
               if int n \<le> thr
               then (Inr True, s\<lparr>requests := Suc (requests s),
                       output_file := output_file s @
                         [format_line (second_cell (row ! 1)) (last row) n]\<rparr>)
               else (Inr False, s\<lparr>requests := Suc (requests s)\<rparr>)))"
  using assms
  by (simp add: process_row_def find_exon_eq split: response.splits option.splits)

lemma process_row_malformed:
  assumes "3 \<le> length row"
    and "\<And>c p. str_split (CHR '':'') (row ! 2) = [c, p] \<Longrightarrow> int_of_str p = None"
  shows "process_row svc g thr row s = (Inl ValueError, s)"
  using assms
  by (auto simp: process_row_def split: list.splits option.splits)


lemma process_row_effect:
  assumes "process_row svc g thr row s = (r, s')"
  shows "messages s' = messages s \<and> progress s' = progress s \<and>
         requests s \<le> requests s' \<and>
         (r = Inr True \<longrightarrow>
            (\<exists>n. output_file s' =
                   output_file s @ [format_line (second_cell (row ! 1)) (last row) n])) \<and>
         (r \<noteq> Inr True \<longrightarrow> output_file s' = output_file s)"
  using assms
  by (auto simp: process_row_def find_exon_eq
           split: if_splits list.splits option.splits response.splits)

lemma scan_rows_full:
  "5 \<le> count \<Longrightarrow> scan_rows svc g thr (Row row # items) count s = (Inr count, s)"
  by simp

lemma scan_rows_append_error:
  "scan_rows svc g thr pre count s = (Inl e, s') \<Longrightarrow>
   scan_rows svc g thr (pre @ rest) count s = (Inl e, s')"
proof (induction pre arbitrary: count s)
  case Nil
  then show ?case by simp
next
  case (Cons item pre)
  show ?case
  proof (cases item)
    case Unreadable
    with Cons.prems show ?thesis by simp
  next
    case (Row row)
    with Cons show ?thesis
      by (auto split: if_splits prod.splits sum.splits)
  qed
qed

lemma scan_rows_append:
  "scan_rows svc g thr pre count s = (Inr c, s') \<Longrightarrow> c < 5 \<Longrightarrow>
   scan_rows svc g thr (pre @ rest) count s = scan_rows svc g thr rest c s'"
proof (induction pre arbitrary: count s)
  case Nil
  then show ?case by simp
next
  case (Cons item pre)
  show ?case
  proof (cases item)
    case Unreadable
    with Cons.prems show ?thesis by simp
  next
    case (Row row)
    with Cons show ?thesis
      by (auto split: if_splits prod.splits sum.splits)
  qed
qed

lemma scan_rows_after_five:
  assumes "scan_rows svc g thr pre count s = (Inr c, s')" and "5 \<le> c"
  shows "snd (scan_rows svc g thr (pre @ rest) count s) = s' \<and>
         (fst (scan_rows svc g thr (pre @ rest) count s) = Inr c \<or>
          fst (scan_rows svc g thr (pre @ rest) count s) = Inl ReaderError) \<and>
         (rest = [] \<or> (\<exists>row items. rest = Row row # items) \<longrightarrow>
            fst (scan_rows svc g thr (pre @ rest) count s) = Inr c)"
  using assms
proof (induction pre arbitrary: count s)
  case Nil
  show ?case
  proof (cases rest)
    case Nil
    with Nil.prems show ?thesis by simp
  next
    case (Cons item items)
    with Nil.prems show ?thesis by (cases item) auto
  qed
next
  case (Cons item pre)
  show ?case
  proof (cases item)
    case Unreadable
    with Cons.prems show ?thesis by simp
  next
    case (Row row)
    show ?thesis
    proof (cases "5 \<le> count")
      case True
      with Row Cons.prems show ?thesis by auto
    next
      case False
      with Row Cons.prems Cons.IH show ?thesis
        by (auto split: if_splits prod.splits sum.splits)
    qed
  qed
qed

lemma scan_rows_kept:
  assumes "scan_rows svc g thr items count s = (r, s')" and "count \<le> 5"
  shows "\<exists>kept lines.
           subseq (map Row kept) items \<and> count + length kept \<le> 5 \<and>
           list_all2 (\<lambda>row line. \<exists>n. line = format_line (second_cell (row ! 1)) (last row) n)
             kept lines \<and>
           output_file s' = output_file s @ lines \<and>
           messages s' = messages s \<and> progress s' = progress s \<and>
           requests s \<le> requests s' \<and>
           (\<forall>c. r = Inr c \<longrightarrow> c = count + length kept)"
  using assms
proof (induction items arbitrary: count s)
  case Nil
  then show ?case by (intro exI[of _ "[]"]) auto
next
  case (Cons item items)
  show ?case
  proof (cases item)
    case Unreadable
    with Cons.prems show ?thesis by (intro exI[of _ "[]"]) auto
  next
    case (Row row)
    show ?thesis
    proof (cases "5 \<le> count")
      case True
      with Row Cons.prems show ?thesis by (intro exI[of _ "[]"]) auto
    next
      case lt: False
      show ?thesis
      proof (cases "row = []")
        case True
        with Row lt Cons.prems have "scan_rows svc g thr items count s = (r, s')" by simp
        from Cons.IH[OF this Cons.prems(2)] obtain kept lines where
          k: "subseq (map Row kept) items" "count + length kept \<le> 5"
          "list_all2 (\<lambda>row line. \<exists>n. line = format_line (second_cell (row ! 1)) (last row) n)
               kept lines"
          "output_file s' = output_file s @ lines"
          "messages s' = messages s" "progress s' = progress s" "requests s \<le> requests s'"
          "\<forall>c. r = Inr c \<longrightarrow> c = count + length kept"
          by blast
        show ?thesis
          by (rule exI[of _ kept], rule exI[of _ lines]) (use k in auto)
      next
        case ne: False
        obtain r1 s1 where p: "process_row svc g thr row s = (r1, s1)"
          by (cases "process_row svc g thr row s")
        note eff = process_row_effect[OF p]
        show ?thesis
        proof (cases r1)
          case (Inl e)
          with Row lt ne p Cons.prems have "r = Inl e" "s' = s1" by auto
          with eff Inl Cons.prems(2) show ?thesis by (intro exI[of _ "[]"]) auto
        next
          case (Inr b)
          show ?thesis
          proof (cases b)
            case False
            with Row lt ne p Inr Cons.prems have "scan_rows svc g thr items count s1 = (r, s')"
              by simp
            from Cons.IH[OF this Cons.prems(2)] obtain kept lines where
              k: "subseq (map Row kept) items" "count + length kept \<le> 5"
              "list_all2 (\<lambda>row line. \<exists>n. line = format_line (second_cell (row ! 1)) (last row) n)
                   kept lines"
              "output_file s' = output_file s1 @ lines"
              "messages s' = messages s1" "progress s' = progress s1" "requests s1 \<le> requests s'"
              "\<forall>c. r = Inr c \<longrightarrow> c = count + length kept"
              by blast
            show ?thesis
              by (rule exI[of _ kept], rule exI[of _ lines])
                 (use k eff Inr False Cons.prems(2) in auto)
          next
            case True
            with Row lt ne p Inr Cons.prems
            have sc: "scan_rows svc g thr items (count + 1) s1 = (r, s')"
              by simp
            from lt have "count + 1 \<le> 5" by simp
            from Cons.IH[OF sc this] obtain kept lines where
              k: "subseq (map Row kept) items" "count + 1 + length kept \<le> 5"
              "list_all2 (\<lambda>row line. \<exists>n. line = format_line (second_cell (row ! 1)) (last row) n)
                   kept lines"
              "output_file s' = output_file s1 @ lines"
              "messages s' = messages s1" "progress s' = progress s1" "requests s1 \<le> requests s'"
              "\<forall>c. r = Inr c \<longrightarrow> c = count + 1 + length kept"
              by blast
            from eff Inr True obtain n where
              n: "output_file s1 =
                  output_file s @ [format_line (second_cell (row ! 1)) (last row) n]"
              by auto
            show ?thesis
              by (rule exI[of _ "row # kept"],
                  rule exI[of _ "format_line (second_cell (row ! 1)) (last row) n # lines"])
                 (use k eff n Row in auto)
          qed
        qed
      qed
    qed
  qed
qed

subsection \<open>The first five qualifying rows\<close>

lemma row_position_Some:
  assumes "row_position row = Some pos"
  shows "3 \<le> length row \<and>
         (\<exists>c p. str_split (CHR '':'') (row ! 2) = [c, p] \<and> int_of_str p = Some pos)"
  using assms
  by (auto simp: row_position_def split: if_splits list.splits)

lemma process_row_qualifying:
  assumes "svc (requests s) g = Transcripts ts" and "row_position row = Some pos"
    and "row \<noteq> []"
  shows "process_row svc g thr row s =
     (if qualifying (concat ts) thr row
      then (Inr True, s\<lparr>requests := Suc (requests s),
              output_file := output_file s @ [kept_line (concat ts) row]\<rparr>)
      else (Inr False, s\<lparr>requests := Suc (requests s)\<rparr>))"
proof -
  from row_position_Some[OF assms(2)] obtain c p where
    h: "3 \<le> length row" "str_split (CHR '':'') (row ! 2) = [c, p]" "int_of_str p = Some pos"
    by blast
  show ?thesis
    using assms
    by (simp add: process_row_parsed[OF h] qualifying_def kept_line_def split: option.splits)
qed

lemma scan_rows_stable:
  assumes "\<forall>n \<ge> requests s. svc n g = Transcripts ts"
    and "\<forall>row \<in> set rows. row = [] \<or> row_position row \<noteq> None"
    and "count \<le> 5"
  shows "fst (scan_rows svc g thr (map Row rows) count s) =
           Inr (min 5 (count + length (filter (qualifying (concat ts) thr) rows))) \<and>
         output_file (snd (scan_rows svc g thr (map Row rows) count s)) =
           output_file s @
           map (kept_line (concat ts)) (take (5 - count) (filter (qualifying (concat ts) thr) rows))"
  using assms
proof (induction rows arbitrary: count s)
  case Nil
  then show ?case by simp
next
  case (Cons row rows)
  show ?case
  proof (cases "5 \<le> count")
    case True
    with Cons.prems show ?thesis by simp
  next
    case lt: False
    from Cons.prems have wf: "\<forall>row \<in> set rows. row = [] \<or> row_position row \<noteq> None"
      by simp
    show ?thesis
    proof (cases "row = []")
      case True
      then have "\<not> qualifying (concat ts) thr row" by (simp add: qualifying_def)
      with True lt Cons.IH[OF Cons.prems(1) wf Cons.prems(3)] show ?thesis by simp
    next
      case ne: False
      with Cons.prems obtain pos where pos: "row_position row = Some pos" by auto
      have "svc (requests s) g = Transcripts ts" using Cons.prems(1) by simp
      note pr = process_row_qualifying[where svc = svc and s = s and g = g and thr = thr,
          OF this pos ne]
      show ?thesis
      proof (cases "qualifying (concat ts) thr row")
        case True
        let ?s1 = "s\<lparr>requests := Suc (requests s),
                     output_file := output_file s @ [kept_line (concat ts) row]\<rparr>"
        from lt have c: "count + 1 \<le> 5" by simp
        from lt have t: "5 - count = Suc (5 - (count + 1))" by simp
        have st: "\<forall>n \<ge> requests ?s1. svc n g = Transcripts ts"
          using Cons.prems(1) by simp
        show ?thesis
          using Cons.IH[OF st wf c] True lt ne pr
          by (simp add: t del: One_nat_def)
      next
        case False
        let ?s1 = "s\<lparr>requests := Suc (requests s)\<rparr>"
        have st: "\<forall>n \<ge> requests ?s1. svc n g = Transcripts ts"
          using Cons.prems(1) by simp
        show ?thesis
          using Cons.IH[OF st wf Cons.prems(3)] False lt ne pr by simp
      qed
    qed
  qed
qed

subsection \<open>The block of a file\<close>

lemma process_file_eq:
  "process_file svc file s =
     (case svc (requests s) (splitext_root (fst file)) of
        Failure \<Rightarrow> (Inl RemoteError, s\<lparr>requests := Suc (requests s)\<rparr>)
      | ErrorBody \<Rightarrow>
          (Inr (), s\<lparr>requests := Suc (requests s),
                     messages := messages s @
                       [NoExonsFound (splitext_root (fst file)) (fst file)],
                     progress := progress s + 1\<rparr>)
      | Transcripts ts \<Rightarrow>
          if concat ts = [] then
            (Inr (), s\<lparr>requests := Suc (requests s),
                       messages := messages s @
                         [NoExonsFound (splitext_root (fst file)) (fst file)],
                       progress := progress s + 1\<rparr>)
          else
            (case calculate_exon_threshold (int (length (concat ts))) of
               Inl e \<Rightarrow> (Inl e, s\<lparr>requests := Suc (requests s)\<rparr>)
             | Inr thr \<Rightarrow>
                 (case snd file of
                    None \<Rightarrow> (Inl OSError, s\<lparr>requests := Suc (requests s)\<rparr>)
                  | Some items \<Rightarrow>
                      if items \<noteq> [] \<and> hd items = Unreadable
                      then (Inl ReaderError, s\<lparr>requests := Suc (requests s)\<rparr>)
                      else
                        (case scan_rows svc (splitext_root (fst file)) thr (tl items) 0
                                (s\<lparr>requests := Suc (requests s),
                                   output_file := output_file s @
                                     [splitext_root (fst file),
                                      replicate (length (splitext_root (fst file))) (CHR ''='')]\<rparr>) of
                           (Inl e, s3) \<Rightarrow> (Inl e, s3)
                         | (Inr count, s3) \<Rightarrow>
                             (Inr (), s3\<lparr>output_file := output_file s3 @ [''''],
                                         progress := progress s3 + 1\<rparr>)))))"
  by (simp add: process_file_def fetch_exon_data_def Let_def
           split: response.splits sum.splits option.splits prod.splits
           del: concat_eq_Nil_conv)

lemma process_file_block:
  "\<exists>kept lines.
     subseq (map Row kept) (case snd file of None \<Rightarrow> [] | Some items \<Rightarrow> tl items) \<and>
     length kept \<le> 5 \<and>
     list_all2 (\<lambda>row line. \<exists>n. line = format_line (second_cell (row ! 1)) (last row) n)
       kept lines \<and>
     (output_file (snd (process_file svc file s)) = output_file s \<or>
      output_file (snd (process_file svc file s)) =
        output_file s @
        [splitext_root (fst file), replicate (length (splitext_root (fst file))) (CHR ''='')] @
        lines \<or>
      output_file (snd (process_file svc file s)) =
        output_file s @
        [splitext_root (fst file), replicate (length (splitext_root (fst file))) (CHR ''='')] @
        lines @ [''''])"
  (is "\<exists>kept lines. ?P kept lines")
proof -
  let ?g = "splitext_root (fst file)"
  let ?s2 = "s\<lparr>requests := Suc (requests s),
               output_file := output_file s @ [?g, replicate (length ?g) (CHR ''='')]\<rparr>"
  have trivial: "\<exists>kept lines. ?P kept lines"
    if "output_file (snd (process_file svc file s)) = output_file s"
    by (rule exI[of _ "[]"], rule exI[of _ "[]"]) (use that in simp)
  show ?thesis
  proof (cases "svc (requests s) ?g")
    case Failure
    then show ?thesis by (intro trivial) (simp add: process_file_eq)
  next
    case ErrorBody
    then show ?thesis by (intro trivial) (simp add: process_file_eq)
  next
    case (Transcripts ts)
    show ?thesis
    proof (cases "concat ts = []")
      case True
      with Transcripts show ?thesis
        by (intro trivial) (simp add: process_file_eq del: concat_eq_Nil_conv)
    next
      case ne: False
      show ?thesis
      proof (cases "calculate_exon_threshold (int (length (concat ts)))")
        case (Inl e)
        with Transcripts ne show ?thesis
          by (intro trivial) (simp add: process_file_eq del: concat_eq_Nil_conv)
      next
        case (Inr thr)
        show ?thesis
        proof (cases "snd file")
          case None
          with Transcripts ne Inr show ?thesis
            by (intro trivial) (simp add: process_file_eq del: concat_eq_Nil_conv)
        next
          case (Some items)
          show ?thesis
          proof (cases "items \<noteq> [] \<and> hd items = Unreadable")
            case True
            with Transcripts ne Inr Some show ?thesis
              by (intro trivial) (simp add: process_file_eq del: concat_eq_Nil_conv)
          next
            case False
            obtain r s3 where sc: "scan_rows svc ?g thr (tl items) 0 ?s2 = (r, s3)"
              by (cases "scan_rows svc ?g thr (tl items) 0 ?s2")
            from scan_rows_kept[OF sc] obtain kept lines where
              k: "subseq (map Row kept) (tl items)" "length kept \<le> 5"
              "list_all2 (\<lambda>row line. \<exists>n. line = format_line (second_cell (row ! 1)) (last row) n)
                 kept lines"
              "output_file s3 = output_file ?s2 @ lines"
              by auto
            have "?P kept lines"
              using k Transcripts ne Inr Some sc False
              by (cases r) (simp_all add: process_file_eq del: concat_eq_Nil_conv)
            then show ?thesis by blast
          qed
        qed
      qed
    qed
  qed
qed

text \<open>
  C4, as stated, fails in two of its parts. The scan does not stop as soon as five rows
  have been kept: the loop asks the reader for one more record before it tests the count,
  and when the reader cannot deliver that record the run aborts, the block is left without
  its separator line. And a file with six qualifying rows does not always yield the first
  five: when its first data row has no colon in its third field the run aborts at that
  row and none is written, and when the service answers the requests of the rows with
  another exon list than in step 3, rows that qualify for the list of step 3 are dropped.
\<close>

theorem first_five_counterexample:
  "read_tsv_files_in_directory_and_write_output service_one_exon
      (Some [(''geneA.tsv'', Some (map Row (header_row # replicate 5 good_row) @ [Unreadable]))])
      True =
     \<lparr>requests = 6,
      output_file = [''geneA'', ''====='',
        ''[ACGT]  Efficiency Score: [0.7]  Exon number: 1'',
        ''[ACGT]  Efficiency Score: [0.7]  Exon number: 1'',
        ''[ACGT]  Efficiency Score: [0.7]  Exon number: 1'',
        ''[ACGT]  Efficiency Score: [0.7]  Exon number: 1'',
        ''[ACGT]  Efficiency Score: [0.7]  Exon number: 1''],
      messages = [ErrorOccurred ReaderError], progress = 0\<rparr> \<and>
   filter (qualifying [\<lparr>exon_start = 1, exon_end = 100\<rparr>] 1)
     (no_colon_row # replicate 6 good_row) = replicate 6 good_row \<and>
   output_file (read_tsv_files_in_directory_and_write_output service_one_exon
      (Some [(''geneA.tsv'', Some (map Row (header_row # no_colon_row # replicate 6 good_row)))])
      True) =
     [''geneA'', ''=====''] \<and>
   service_drift 0 ''geneA'' = Transcripts [[\<lparr>exon_start = 1, exon_end = 100\<rparr>]] \<and>
   output_file (read_tsv_files_in_directory_and_write_output service_drift
      (Some [(''geneA.tsv'', Some (map Row (header_row # replicate 6 good_row)))]) True) =
     [''geneA'', ''====='', '''']"
  by code_simp

text \<open>
  C4, amended. For every file, whatever the outcome: the lines written for kept rows
  are at most five and are the lines of a subsequence of the records of the file after
  the header, in row order, between the two header lines and the separator line. Once
  the scan of the first records has kept five rows, no continuation of the file changes
  the state the scan ends in: no field of a later row is read, no request is sent and no
  line is written. The reader is asked for one more record: when the file ends there or
  the reader delivers the record, whatever row it is, the scan ends without error, and
  otherwise the only other outcome is the error of the reader. When the reader delivers
  the rows \<open>rows\<close>, every request from the start of the scan on returns the same exon
  lists, every row of \<open>rows\<close> is empty or carries a position, and five rows of \<open>rows\<close>
  qualify or the file ends after \<open>rows\<close>, the lines written are those of the first five
  qualifying rows, or of all of them when there are fewer than five.
\<close>

theorem first_five_kept:
  "(\<exists>kept lines.
      subseq (map Row kept) (case snd file of None \<Rightarrow> [] | Some items \<Rightarrow> tl items) \<and>
      length kept \<le> 5 \<and>
      list_all2 (\<lambda>row line. \<exists>n. line = format_line (second_cell (row ! 1)) (last row) n)
        kept lines \<and>
      (output_file (snd (process_file svc file s)) = output_file s \<or>
       output_file (snd (process_file svc file s)) =
         output_file s @
         [splitext_root (fst file), replicate (length (splitext_root (fst file))) (CHR ''='')] @
         lines \<or>
       output_file (snd (process_file svc file s)) =
         output_file s @
         [splitext_root (fst file), replicate (length (splitext_root (fst file))) (CHR ''='')] @
         lines @ [''''])) \<and>
   (fst (scan_rows svc g thr pre 0 s) = Inr c \<and> 5 \<le> c \<longrightarrow>
      snd (scan_rows svc g thr (pre @ rest) 0 s) = snd (scan_rows svc g thr pre 0 s) \<and>
      (fst (scan_rows svc g thr (pre @ rest) 0 s) = Inr c \<or>
       fst (scan_rows svc g thr (pre @ rest) 0 s) = Inl ReaderError) \<and>
      scan_rows svc g thr (pre @ Row row # rest) 0 s = scan_rows svc g thr pre 0 s) \<and>
   ((\<forall>n \<ge> requests s. svc n g = Transcripts ts) \<and>
    (\<forall>row \<in> set rows. row = [] \<or> row_position row \<noteq> None) \<and>
    (5 \<le> length (filter (qualifying (concat ts) thr) rows) \<or> rest = []) \<longrightarrow>
      output_file (snd (scan_rows svc g thr (map Row rows @ rest) 0 s)) =
        output_file s @
        map (kept_line (concat ts)) (take 5 (filter (qualifying (concat ts) thr) rows)) \<and>
      (rest = [] \<or> (\<exists>row items. rest = Row row # items) \<longrightarrow>
         fst (scan_rows svc g thr (map Row rows @ rest) 0 s) =
           Inr (min 5 (length (filter (qualifying (concat ts) thr) rows)))))"
proof (intro conjI)
  show "\<exists>kept lines.
      subseq (map Row kept) (case snd file of None \<Rightarrow> [] | Some items \<Rightarrow> tl items) \<and>
      length kept \<le> 5 \<and>
      list_all2 (\<lambda>row line. \<exists>n. line = format_line (second_cell (row ! 1)) (last row) n)
        kept lines \<and>
      (output_file (snd (process_file svc file s)) = output_file s \<or>
       output_file (snd (process_file svc file s)) =
         output_file s @
         [splitext_root (fst file), replicate (length (splitext_root (fst file))) (CHR ''='')] @
         lines \<or>
       output_file (snd (process_file svc file s)) =
         output_file s @
         [splitext_root (fst file), replicate (length (splitext_root (fst file))) (CHR ''='')] @
         lines @ [''''])"
    by (rule process_file_block)
next
  show "fst (scan_rows svc g thr pre 0 s) = Inr c \<and> 5 \<le> c \<longrightarrow>
      snd (scan_rows svc g thr (pre @ rest) 0 s) = snd (scan_rows svc g thr pre 0 s) \<and>
      (fst (scan_rows svc g thr (pre @ rest) 0 s) = Inr c \<or>
       fst (scan_rows svc g thr (pre @ rest) 0 s) = Inl ReaderError) \<and>
      scan_rows svc g thr (pre @ Row row # rest) 0 s = scan_rows svc g thr pre 0 s"
  proof
    assume h: "fst (scan_rows svc g thr pre 0 s) = Inr c \<and> 5 \<le> c"
    obtain s1 where sc: "scan_rows svc g thr pre 0 s = (Inr c, s1)"
      using h by (cases "scan_rows svc g thr pre 0 s") simp
    from h have c: "5 \<le> c" by simp
    from scan_rows_after_five[OF sc c, of rest]
    have a: "snd (scan_rows svc g thr (pre @ rest) 0 s) = s1"
      and b: "fst (scan_rows svc g thr (pre @ rest) 0 s) = Inr c \<or>
              fst (scan_rows svc g thr (pre @ rest) 0 s) = Inl ReaderError"
      by simp_all
    from scan_rows_after_five[OF sc c, of "Row row # rest"]
    have "scan_rows svc g thr (pre @ Row row # rest) 0 s = (Inr c, s1)"
      by (cases "scan_rows svc g thr (pre @ Row row # rest) 0 s") simp
    with a b sc show "snd (scan_rows svc g thr (pre @ rest) 0 s) =
        snd (scan_rows svc g thr pre 0 s) \<and>
      (fst (scan_rows svc g thr (pre @ rest) 0 s) = Inr c \<or>
       fst (scan_rows svc g thr (pre @ rest) 0 s) = Inl ReaderError) \<and>
      scan_rows svc g thr (pre @ Row row # rest) 0 s = scan_rows svc g thr pre 0 s"
      by simp
  qed
next
  let ?Q = "qualifying (concat ts) thr"
  show "(\<forall>n \<ge> requests s. svc n g = Transcripts ts) \<and>
    (\<forall>row \<in> set rows. row = [] \<or> row_position row \<noteq> None) \<and>
    (5 \<le> length (filter ?Q rows) \<or> rest = []) \<longrightarrow>
      output_file (snd (scan_rows svc g thr (map Row rows @ rest) 0 s)) =
        output_file s @ map (kept_line (concat ts)) (take 5 (filter ?Q rows)) \<and>
      (rest = [] \<or> (\<exists>row items. rest = Row row # items) \<longrightarrow>
         fst (scan_rows svc g thr (map Row rows @ rest) 0 s) =
           Inr (min 5 (length (filter ?Q rows))))"
  proof
    assume h: "(\<forall>n \<ge> requests s. svc n g = Transcripts ts) \<and>
      (\<forall>row \<in> set rows. row = [] \<or> row_position row \<noteq> None) \<and>
      (5 \<le> length (filter ?Q rows) \<or> rest = [])"
    obtain r s1 where sc: "scan_rows svc g thr (map Row rows) 0 s = (r, s1)"
      by (cases "scan_rows svc g thr (map Row rows) 0 s")
    from h have st: "\<forall>n \<ge> requests s. svc n g = Transcripts ts"
      and wf: "\<forall>row \<in> set rows. row = [] \<or> row_position row \<noteq> None"
      by simp_all
    from scan_rows_stable[where s = s and svc = svc and g = g and ts = ts and rows = rows
        and count = 0 and thr = thr, OF st wf] sc
    have r: "r = Inr (min 5 (length (filter ?Q rows)))"
      and o: "output_file s1 = output_file s @ map (kept_line (concat ts)) (take 5 (filter ?Q rows))"
      by simp_all
    have both: "snd (scan_rows svc g thr (map Row rows @ rest) 0 s) = s1 \<and>
        (rest = [] \<or> (\<exists>row items. rest = Row row # items) \<longrightarrow>
         fst (scan_rows svc g thr (map Row rows @ rest) 0 s) = r)"
    proof (cases "rest = []")
      case True
      with sc show ?thesis by simp
    next
      case False
      with h have five: "5 \<le> length (filter ?Q rows)" by simp
      with r have r5: "r = Inr 5" by simp
      from sc r5 have sc5: "scan_rows svc g thr (map Row rows) 0 s = (Inr 5, s1)" by simp
      from scan_rows_after_five[OF sc5, of rest] r5 show ?thesis by simp
    qed
    with r o show "output_file (snd (scan_rows svc g thr (map Row rows @ rest) 0 s)) =
        output_file s @ map (kept_line (concat ts)) (take 5 (filter ?Q rows)) \<and>
      (rest = [] \<or> (\<exists>row items. rest = Row row # items) \<longrightarrow>
         fst (scan_rows svc g thr (map Row rows @ rest) 0 s) =
           Inr (min 5 (length (filter ?Q rows))))"
      by simp
  qed
qed

theorem first_five_kept_witness:
  "fst (scan_rows service_one_exon ''geneA'' 1 (map Row (replicate 6 good_row) @ [Row short_row])
          0 init_world) = Inr 5 \<and>
   output_file (snd (scan_rows service_one_exon ''geneA'' 1
                       (map Row (replicate 6 good_row) @ [Row short_row]) 0 init_world)) =
     replicate 5 ''[ACGT]  Efficiency Score: [0.7]  Exon number: 1'' \<and>
   scan_rows service_one_exon ''geneA'' 1
       (map Row (replicate 6 good_row) @ Row short_row # [Unreadable]) 0 init_world =
     scan_rows service_one_exon ''geneA'' 1 (map Row (replicate 6 good_row)) 0 init_world"
proof -
  let ?ts = "[[\<lparr>exon_start = 1, exon_end = 100\<rparr>]]"
  have st: "\<forall>n \<ge> requests init_world. service_one_exon n ''geneA'' = Transcripts ?ts"
    by (simp add: service_one_exon_def)
  have wf: "\<forall>row \<in> set (replicate 6 good_row). row = [] \<or> row_position row \<noteq> None"
    by code_simp
  have q: "filter (qualifying (concat ?ts) 1) (replicate 6 good_row) = replicate 6 good_row"
    by code_simp
  have kl: "map (kept_line (concat ?ts)) (take 5 (replicate 6 good_row)) =
            replicate 5 ''[ACGT]  Efficiency Score: [0.7]  Exon number: 1''"
    by code_simp
  have o: "output_file init_world = []"
    by (simp add: init_world_def)
  have five: "5 \<le> length (filter (qualifying (concat ?ts) 1) (replicate 6 good_row)) \<or>
              [Row short_row] = []"
    unfolding q by simp
  have c5: "fst (scan_rows service_one_exon ''geneA'' 1 (map Row (replicate 6 good_row)) 0
                   init_world) = Inr 5 \<and> (5::nat) \<le> 5"
    by code_simp
  note t = first_five_kept[of "(''geneA.tsv'', None)" service_one_exon init_world
      "''geneA''" 1 "map Row (replicate 6 good_row)" 5 "[Unreadable]" short_row
      "[[\<lparr>exon_start = 1, exon_end = 100\<rparr>]]" "replicate 6 good_row"]
  note t' = first_five_kept[of "(''geneA.tsv'', None)" service_one_exon init_world
      "''geneA''" 1 "map Row (replicate 6 good_row)" 5 "[Row short_row]" short_row
      "[[\<lparr>exon_start = 1, exon_end = 100\<rparr>]]" "replicate 6 good_row"]
  from t'[THEN conjunct2, THEN conjunct2, rule_format, OF conjI[OF st conjI[OF wf five]]]
  have a: "fst (scan_rows service_one_exon ''geneA'' 1
                  (map Row (replicate 6 good_row) @ [Row short_row]) 0 init_world) = Inr 5"
    and b: "output_file (snd (scan_rows service_one_exon ''geneA'' 1
                       (map Row (replicate 6 good_row) @ [Row short_row]) 0 init_world)) =
            replicate 5 ''[ACGT]  Efficiency Score: [0.7]  Exon number: 1''"
    unfolding q kl o by simp_all
  from t[THEN conjunct2, THEN conjunct1, rule_format, OF c5]
  have "scan_rows service_one_exon ''geneA'' 1
       (map Row (replicate 6 good_row) @ Row short_row # [Unreadable]) 0 init_world =
     scan_rows service_one_exon ''geneA'' 1 (map Row (replicate 6 good_row)) 0 init_world"
    by simp
  with a b show ?thesis by simp
qed

subsection \<open>Skipped files and aborted runs\<close>

lemma process_files_append:
  "process_files svc (pre @ post) s =
     (case process_files svc pre s of
        (Inl e, s') \<Rightarrow> (Inl e, s')
      | (Inr u, s') \<Rightarrow> process_files svc post s')"
  by (induction pre arbitrary: s) (simp_all split: prod.splits sum.splits)

lemma process_file_effect:
  assumes "process_file svc file s = (r, s')"
  shows "prefix (output_file s) (output_file s') \<and>
         (\<exists>ms. messages s' = messages s @ ms \<and> (\<forall>m \<in> set ms. \<exists>g f. m = NoExonsFound g f))"
proof -
  let ?g = "splitext_root (fst file)"
  let ?s2 = "s\<lparr>requests := Suc (requests s),
               output_file := output_file s @ [?g, replicate (length ?g) (CHR ''='')]\<rparr>"
  have scan: "prefix (output_file s) (output_file s3) \<and> messages s3 = messages s"
    if "scan_rows svc ?g thr rows 0 ?s2 = (r3, s3)" for thr rows r3 s3
    using scan_rows_kept[OF that] by (auto simp: prefix_def)
  show ?thesis
    using assms scan
    by (auto simp: process_file_eq
             split: response.splits if_splits sum.splits option.splits prod.splits
             simp del: concat_eq_Nil_conv)
qed

lemma process_files_effect:
  assumes "process_files svc files s = (r, s')"
  shows "prefix (output_file s) (output_file s') \<and>
         (\<exists>ms. messages s' = messages s @ ms \<and> (\<forall>m \<in> set ms. \<exists>g f. m = NoExonsFound g f))"
  using assms
proof (induction files arbitrary: s)
  case Nil
  then show ?case by simp
next
  case (Cons entry entries)
  show ?case
  proof (cases "endswith (fst entry) ''.tsv''")
    case False
    with Cons show ?thesis by simp
  next
    case True
    obtain r1 s1 where pf: "process_file svc entry s = (r1, s1)"
      by (cases "process_file svc entry s")
    note e1 = process_file_effect[OF pf]
    show ?thesis
    proof (cases r1)
      case (Inl e)
      with True pf Cons.prems e1 show ?thesis by auto
    next
      case (Inr u)
      with True pf Cons.prems have "process_files svc entries s1 = (r, s')" by simp
      from Cons.IH[OF this] e1 show ?thesis
        by (auto intro: prefix_order.trans) 
    qed
  qed
qed

lemma run_of_process_files:
  "read_tsv_files_in_directory_and_write_output svc (Some files) True =
     (case process_files svc files init_world of
        (Inl e, s) \<Rightarrow> s\<lparr>messages := messages s @ [ErrorOccurred e]\<rparr>
      | (Inr u, s) \<Rightarrow> s\<lparr>messages := messages s @ [ProcessedAll]\<rparr>)"
  by (simp add: read_tsv_files_in_directory_and_write_output_def)

lemma scan_rows_abort:
  assumes "scan_rows svc g thr before count s = (Inr c, s3)" and "c < 5" and "row \<noteq> []"
    and "process_row svc g thr row s3 = (Inl e, s4)"
  shows "scan_rows svc g thr (before @ Row row # after) count s = (Inl e, s4)"
  using assms scan_rows_append[OF assms(1,2), of "Row row # after"] by simp

lemma abort_at_row:
  assumes prior: "process_files svc pre init_world = (Inr (), s1)"
    and name: "endswith name ''.tsv''"
    and svc: "svc (requests s1) (splitext_root name) = Transcripts ts" "concat ts \<noteq> []"
    and thr: "calculate_exon_threshold (int (length (concat ts))) = Inr thr"
    and scan: "scan_rows svc (splitext_root name) thr before 0
                 (s1\<lparr>requests := Suc (requests s1),
                     output_file := output_file s1 @
                       [splitext_root name, replicate (length (splitext_root name)) (CHR ''='')]\<rparr>) =
               (Inr c, s3)"
    and c: "c < 5"
    and row: "row \<noteq> []" "process_row svc (splitext_root name) thr row s3 = (Inl e, s4)"
  shows "read_tsv_files_in_directory_and_write_output svc
           (Some (pre @ (name, Some (Row header # before @ Row row # after)) # post)) True =
         s4\<lparr>messages := messages s4 @ [ErrorOccurred e]\<rparr> \<and>
         prefix (output_file s1) (output_file s4) \<and>
         (\<forall>m \<in> set (messages s4). \<exists>g f. m = NoExonsFound g f)"
proof -
  let ?entry = "(name, Some (Row header # before @ Row row # after))"
  have pf: "process_file svc ?entry s1 = (Inl e, s4)"
    using svc thr scan_rows_abort[OF scan c row, of after]
    by (simp add: process_file_eq del: concat_eq_Nil_conv)
  with prior name have all: "process_files svc (pre @ ?entry # post) init_world = (Inl e, s4)"
    by (simp add: process_files_append)
  from process_files_effect[OF all] have
    m: "\<forall>m \<in> set (messages s4). \<exists>g f. m = NoExonsFound g f"
    by (auto simp: init_world_def)
  from process_file_effect[OF pf] have "prefix (output_file s1) (output_file s4)"
    by simp
  with all m show ?thesis
    by (simp add: run_of_process_files)
qed

text \<open>
  C5: when the files before have been processed without error and the locator answers
  the request for a file's gene with an error payload or with no exon at all, the file
  writes nothing to the output, adds one skip notice, advances the progress bar by one,
  and the run goes on with the files after it from that state; when those raise no error
  the run ends with the completion message.
\<close>

theorem skipped_gene:
  assumes "process_files svc pre init_world = (Inr (), s1)"
    and "endswith (fst entry) ''.tsv''"
    and "svc (requests s1) (splitext_root (fst entry)) = ErrorBody \<or>
         svc (requests s1) (splitext_root (fst entry)) = Transcripts ts \<and> concat ts = []"
  shows "process_file svc entry s1 =
           (Inr (), s1\<lparr>requests := Suc (requests s1),
                       messages := messages s1 @
                         [NoExonsFound (splitext_root (fst entry)) (fst entry)],
                       progress := progress s1 + 1\<rparr>) \<and>
         output_file (snd (process_file svc entry s1)) = output_file s1 \<and>
         process_files svc (pre @ entry # post) init_world =
           process_files svc post
             (s1\<lparr>requests := Suc (requests s1),
                 messages := messages s1 @
                   [NoExonsFound (splitext_root (fst entry)) (fst entry)],
                 progress := progress s1 + 1\<rparr>) \<and>
         (process_files svc post
             (s1\<lparr>requests := Suc (requests s1),
                 messages := messages s1 @
                   [NoExonsFound (splitext_root (fst entry)) (fst entry)],
                 progress := progress s1 + 1\<rparr>) = (Inr (), s2) \<longrightarrow>
          read_tsv_files_in_directory_and_write_output svc (Some (pre @ entry # post)) True =
            s2\<lparr>messages := messages s2 @ [ProcessedAll]\<rparr>)"
proof -
  let ?s1' = "s1\<lparr>requests := Suc (requests s1),
                 messages := messages s1 @
                   [NoExonsFound (splitext_root (fst entry)) (fst entry)],
                 progress := progress s1 + 1\<rparr>"
  have pf: "process_file svc entry s1 = (Inr (), ?s1')"
    using assms(3) by (auto simp: process_file_eq simp del: concat_eq_Nil_conv)
  have all: "process_files svc (pre @ entry # post) init_world = process_files svc post ?s1'"
    using assms(1,2) pf by (simp add: process_files_append)
  show ?thesis
    using pf all by (simp add: run_of_process_files)
qed

theorem skipped_gene_witness:
  "read_tsv_files_in_directory_and_write_output service_geneA
     (Some [(''geneA.tsv'', Some (map Row [header_row, good_row])),
            (''geneB.tsv'', Some (map Row [header_row, good_row]))]) True =
   \<lparr>requests = 3,
    output_file = [''geneA'', ''====='', ''[ACGT]  Efficiency Score: [0.7]  Exon number: 1'', ''''],
    messages = [NoExonsFound ''geneB'' ''geneB.tsv'', ProcessedAll],
    progress = 2\<rparr>"
proof -
  let ?s1 = "\<lparr>requests = 2,
    output_file = [''geneA'', ''====='', ''[ACGT]  Efficiency Score: [0.7]  Exon number: 1'', ''''],
    messages = [], progress = 1\<rparr>"
  have h1: "process_files service_geneA [(''geneA.tsv'', Some (map Row [header_row, good_row]))] init_world =
            (Inr (), ?s1)"
    by code_simp
  have h2: "endswith (fst (''geneB.tsv'', Some (map Row [header_row, good_row]))) ''.tsv''"
    by code_simp
  have g: "splitext_root (fst (''geneB.tsv'', Some (map Row [header_row, good_row]))) = ''geneB''"
    by code_simp
  have h3: "service_geneA (requests ?s1) (splitext_root (fst (''geneB.tsv'', Some (map Row [header_row, good_row])))) = ErrorBody \<or>
            service_geneA (requests ?s1) (splitext_root (fst (''geneB.tsv'', Some (map Row [header_row, good_row])))) = Transcripts [] \<and> concat [] = ([] :: exon list)"
    unfolding g by (simp add: service_geneA_def)
  from skipped_gene[OF h1 h2 h3, of "[]"] show ?thesis
    unfolding g by simp
qed

text \<open>
  C6: the files before have been processed without error, the gene of the file has exons,
  the reader delivers the header, and the scan of the records before has kept fewer than
  five rows when the reader delivers a non-empty row whose third field has no colon, or
  has one colon followed by a position that \<^verbatim>\<open>int\<close> does not accept. Then the run ends
  in the state the scan had reached, with one error message added and no other error
  message before it: the records and the files after have no effect, and what the files
  before wrote is still in the output.
\<close>

theorem malformed_coordinate_aborts:
  assumes "process_files svc pre init_world = (Inr (), s1)"
    and "endswith name ''.tsv''"
    and "svc (requests s1) (splitext_root name) = Transcripts ts" and "concat ts \<noteq> []"
    and "calculate_exon_threshold (int (length (concat ts))) = Inr thr"
    and "scan_rows svc (splitext_root name) thr before 0
           (s1\<lparr>requests := Suc (requests s1),
               output_file := output_file s1 @
                 [splitext_root name, replicate (length (splitext_root name)) (CHR ''='')]\<rparr>) =
         (Inr c, s3)"
    and "c < 5"
    and "row \<noteq> []" and "3 \<le> length row"
    and "CHR '':'' \<notin> set (row ! 2) \<or>
         (\<exists>chromosome position.
            row ! 2 = chromosome @ CHR '':'' # position \<and>
            CHR '':'' \<notin> set chromosome \<and> CHR '':'' \<notin> set position \<and>
            int_of_str position = None)"
  shows "read_tsv_files_in_directory_and_write_output svc
           (Some (pre @ (name, Some (Row header # before @ Row row # after)) # post)) True =
         s3\<lparr>messages := messages s3 @ [ErrorOccurred ValueError]\<rparr> \<and>
         prefix (output_file s1) (output_file s3) \<and>
         (\<forall>m \<in> set (messages s3). \<exists>g f. m = NoExonsFound g f)"
proof -
  have "int_of_str p = None" if "str_split (CHR '':'') (row ! 2) = [c, p]" for c p
    using assms(10)
  proof
    assume "CHR '':'' \<notin> set (row ! 2)"
    with that show ?thesis by (simp add: str_split_no_sep)
  next
    assume "\<exists>chromosome position.
            row ! 2 = chromosome @ CHR '':'' # position \<and>
            CHR '':'' \<notin> set chromosome \<and> CHR '':'' \<notin> set position \<and>
            int_of_str position = None"
    with that show ?thesis by (auto simp: str_split_pair)
  qed
  then have "process_row svc (splitext_root name) thr row s3 = (Inl ValueError, s3)"
    using assms(9) by (rule process_row_malformed[rotated])
  from abort_at_row[OF assms(1-8) this] show ?thesis .
qed

theorem malformed_coordinate_aborts_witness:
  "read_tsv_files_in_directory_and_write_output service_geneA
     (Some [(''geneB.tsv'', Some (map Row [header_row, good_row])),
            (''geneA.tsv'', Some (map Row [header_row, good_row, no_number_row, good_row])),
            (''geneC.tsv'', Some (map Row [header_row, good_row]))]) True =
   \<lparr>requests = 3,
    output_file = [''geneA'', ''====='', ''[ACGT]  Efficiency Score: [0.7]  Exon number: 1''],
    messages = [NoExonsFound ''geneB'' ''geneB.tsv'', ErrorOccurred ValueError],
    progress = 1\<rparr>"
proof -
  let ?s1 = "\<lparr>requests = 1, output_file = [],
              messages = [NoExonsFound ''geneB'' ''geneB.tsv''], progress = 1\<rparr>"
  let ?s3 = "\<lparr>requests = 3,
    output_file = [''geneA'', ''====='', ''[ACGT]  Efficiency Score: [0.7]  Exon number: 1''],
    messages = [NoExonsFound ''geneB'' ''geneB.tsv''], progress = 1\<rparr>"
  have g: "splitext_root ''geneA.tsv'' = ''geneA''"
    by code_simp
  have h1: "process_files service_geneA [(''geneB.tsv'', Some (map Row [header_row, good_row]))] init_world =
            (Inr (), ?s1)"
    by code_simp
  have h2: "endswith ''geneA.tsv'' ''.tsv''"
    by code_simp
  have h3: "service_geneA (requests ?s1) (splitext_root ''geneA.tsv'') =
            Transcripts [[\<lparr>exon_start = 1, exon_end = 100\<rparr>]]"
    unfolding g by (simp add: service_geneA_def)
  have h4: "concat [[\<lparr>exon_start = 1, exon_end = 100\<rparr>]] \<noteq> []"
    by simp
  have h5: "calculate_exon_threshold (int (length (concat [[\<lparr>exon_start = 1, exon_end = 100\<rparr>]]))) = Inr 1"
    by (simp add: threshold_small)
  have h6: "scan_rows service_geneA (splitext_root ''geneA.tsv'') 1 [Row good_row] 0
           (?s1\<lparr>requests := Suc (requests ?s1),
               output_file := output_file ?s1 @
                 [splitext_root ''geneA.tsv'',
                  replicate (length (splitext_root ''geneA.tsv'')) (CHR ''='')]\<rparr>) =
         (Inr 1, ?s3)"
    by code_simp
  have h7: "(1::nat) < 5" by simp
  have h8: "no_number_row \<noteq> []" by (simp add: no_number_row_def)
  have h9: "3 \<le> length no_number_row" by (simp add: no_number_row_def)
  have p: "int_of_str ''fifty'' = None" by code_simp
  have h10: "CHR '':'' \<notin> set (no_number_row ! 2) \<or>
         (\<exists>chromosome position.
            no_number_row ! 2 = chromosome @ CHR '':'' # position \<and>
            CHR '':'' \<notin> set chromosome \<and> CHR '':'' \<notin> set position \<and>
            int_of_str position = None)"
    by (rule disjI2, rule exI[of _ "''chr1''"], rule exI[of _ "''fifty''"])
       (simp add: no_number_row_def p)
  from malformed_coordinate_aborts[OF h1 h2 h3 h4 h5 h6 h7 h8 h9 h10,
      of header_row "[Row good_row]" "[(''geneC.tsv'', Some (map Row [header_row, good_row]))]"]
  show ?thesis by simp
qed

subsection \<open>After the fifth kept row, and short rows\<close>

lemma int_of_str_examples:
  "int_of_str ''50'' = Some 50"
  "int_of_str [CHR 0xA0, CHR ''5'', CHR ''0''] = Some 50"
  "int_of_str [CHR ''5'', CHR ''0'', CHR 0x85] = Some 50"
  "int_of_str [CHR 0x1C, CHR ''5'', CHR ''0''] = None"
  "int_of_str ''fifty'' = None"
  by code_simp+

text \<open>
  C9, as stated, fails: the loop asks the reader for the record after the fifth kept row
  before it tests the count. When the reader cannot deliver that record the run aborts:
  the block of the file has no separator line and the file after it is not processed.
\<close>

theorem rows_after_fifth_counterexample:
  "read_tsv_files_in_directory_and_write_output service_geneA
      (Some [(''geneA.tsv'',
              Some (map Row (header_row # replicate 5 good_row) @ [Unreadable, Row good_row])),
             (''geneB.tsv'', Some (map Row [header_row, good_row]))])
      True =
     \<lparr>requests = 6,
      output_file = [''geneA'', ''====='',
        ''[ACGT]  Efficiency Score: [0.7]  Exon number: 1'',
        ''[ACGT]  Efficiency Score: [0.7]  Exon number: 1'',
        ''[ACGT]  Efficiency Score: [0.7]  Exon number: 1'',
        ''[ACGT]  Efficiency Score: [0.7]  Exon number: 1'',
        ''[ACGT]  Efficiency Score: [0.7]  Exon number: 1''],
      messages = [ErrorOccurred ReaderError], progress = 0\<rparr>"
  by code_simp

text \<open>
  C9, amended: the gene of the file has exons, the reader delivers the header, the scan of
  the records before has kept four rows, and the row \<open>fifth\<close> is kept as the fifth. When
  the file ends there, or when the reader delivers the next record, whatever row it is and
  whatever follows it, no field of a later row is read and no request is sent: the file is
  completed without error in the state reached at the fifth kept row, with its separator
  line written and the progress advanced. When the reader cannot deliver the next record,
  the file ends with the error of the reader in that state.
\<close>

theorem rows_after_fifth_not_parsed:
  assumes "svc (requests s) (splitext_root name) = Transcripts ts" and "concat ts \<noteq> []"
    and "calculate_exon_threshold (int (length (concat ts))) = Inr thr"
    and "scan_rows svc (splitext_root name) thr pre 0
           (s\<lparr>requests := Suc (requests s),
              output_file := output_file s @
                [splitext_root name, replicate (length (splitext_root name)) (CHR ''='')]\<rparr>) =
         (Inr 4, s4)"
    and "fifth \<noteq> []"
    and "process_row svc (splitext_root name) thr fifth s4 = (Inr True, s5)"
  shows "process_file svc (name, Some (Row header # pre @ [Row fifth])) s =
           (Inr (), s5\<lparr>output_file := output_file s5 @ [''''],
                       progress := progress s5 + 1\<rparr>) \<and>
         process_file svc (name, Some (Row header # pre @ Row fifth # Row row # rest)) s =
           (Inr (), s5\<lparr>output_file := output_file s5 @ [''''],
                       progress := progress s5 + 1\<rparr>) \<and>
         process_file svc (name, Some (Row header # pre @ Row fifth # Unreadable # rest)) s =
           (Inl ReaderError, s5)"
proof -
  let ?s2 = "s\<lparr>requests := Suc (requests s),
              output_file := output_file s @
                [splitext_root name, replicate (length (splitext_root name)) (CHR ''='')]\<rparr>"
  have step: "scan_rows svc (splitext_root name) thr (pre @ Row fifth # items) 0 ?s2 =
              scan_rows svc (splitext_root name) thr items 5 s5" for items
    using scan_rows_append[OF assms(4), of "Row fifth # items"] assms(5,6) by simp
  have a: "scan_rows svc (splitext_root name) thr (pre @ [Row fifth]) 0 ?s2 = (Inr 5, s5)"
    using step[of "[]"] by simp
  have b: "scan_rows svc (splitext_root name) thr (pre @ Row fifth # Row row # rest) 0 ?s2 =
           (Inr 5, s5)"
    using step[of "Row row # rest"] by simp
  have c: "scan_rows svc (splitext_root name) thr (pre @ Row fifth # Unreadable # rest) 0 ?s2 =
           (Inl ReaderError, s5)"
    using step[of "Unreadable # rest"] by simp
  from assms(1-3) a b c show ?thesis
    by (simp add: process_file_eq del: concat_eq_Nil_conv scan_rows.simps)
qed

theorem rows_after_fifth_not_parsed_witness:
  "process_file service_one_exon
     (''geneA.tsv'',
      Some (Row header_row # map Row (replicate 4 good_row) @
            Row good_row # Row no_colon_row # [Row short_row, Unreadable]))
     init_world =
   (Inr (),
    \<lparr>requests = 6,
     output_file = [''geneA'', ''====='',
       ''[ACGT]  Efficiency Score: [0.7]  Exon number: 1'',
       ''[ACGT]  Efficiency Score: [0.7]  Exon number: 1'',
       ''[ACGT]  Efficiency Score: [0.7]  Exon number: 1'',
       ''[ACGT]  Efficiency Score: [0.7]  Exon number: 1'',
       ''[ACGT]  Efficiency Score: [0.7]  Exon number: 1'', ''''],
     messages = [], progress = 1\<rparr>) \<and>
   process_file service_one_exon
     (''geneA.tsv'',
      Some (Row header_row # map Row (replicate 4 good_row) @
            Row good_row # Unreadable # [Row short_row, Unreadable]))
     init_world =
   (Inl ReaderError,
    \<lparr>requests = 6,
     output_file = [''geneA'', ''====='',
       ''[ACGT]  Efficiency Score: [0.7]  Exon number: 1'',
       ''[ACGT]  Efficiency Score: [0.7]  Exon number: 1'',
       ''[ACGT]  Efficiency Score: [0.7]  Exon number: 1'',
       ''[ACGT]  Efficiency Score: [0.7]  Exon number: 1'',
       ''[ACGT]  Efficiency Score: [0.7]  Exon number: 1''],
     messages = [], progress = 0\<rparr>)"
proof -
  let ?s4 = "\<lparr>requests = 5,
     output_file = [''geneA'', ''====='',
       ''[ACGT]  Efficiency Score: [0.7]  Exon number: 1'',
       ''[ACGT]  Efficiency Score: [0.7]  Exon number: 1'',
       ''[ACGT]  Efficiency Score: [0.7]  Exon number: 1'',
       ''[ACGT]  Efficiency Score: [0.7]  Exon number: 1''],
     messages = [], progress = 0\<rparr>"
  let ?s5 = "\<lparr>requests = 6,
     output_file = [''geneA'', ''====='',
       ''[ACGT]  Efficiency Score: [0.7]  Exon number: 1'',
       ''[ACGT]  Efficiency Score: [0.7]  Exon number: 1'',
       ''[ACGT]  Efficiency Score: [0.7]  Exon number: 1'',
       ''[ACGT]  Efficiency Score: [0.7]  Exon number: 1'',
       ''[ACGT]  Efficiency Score: [0.7]  Exon number: 1''],
     messages = [], progress = 0\<rparr>"
  have h1: "service_one_exon (requests init_world) (splitext_root ''geneA.tsv'') =
            Transcripts [[\<lparr>exon_start = 1, exon_end = 100\<rparr>]]"
    by (simp add: service_one_exon_def)
  have h2: "concat [[\<lparr>exon_start = 1, exon_end = 100\<rparr>]] \<noteq> []"
    by simp
  have h3: "calculate_exon_threshold (int (length (concat [[\<lparr>exon_start = 1, exon_end = 100\<rparr>]]))) = Inr 1"
    by (simp add: threshold_small)
  have h4: "scan_rows service_one_exon (splitext_root ''geneA.tsv'') 1
              (map Row (replicate 4 good_row)) 0
           (init_world\<lparr>requests := Suc (requests init_world),
              output_file := output_file init_world @
                [splitext_root ''geneA.tsv'',
                 replicate (length (splitext_root ''geneA.tsv'')) (CHR ''='')]\<rparr>) =
         (Inr 4, ?s4)"
    by code_simp
  have h5: "good_row \<noteq> []" by (simp add: good_row_def)
  have h6: "process_row service_one_exon (splitext_root ''geneA.tsv'') 1 good_row ?s4 =
            (Inr True, ?s5)"
    by code_simp
  from rows_after_fifth_not_parsed[OF h1 h2 h3 h4 h5 h6,
      of header_row no_colon_row "[Row short_row, Unreadable]"]
  show ?thesis by simp
qed

text \<open>
  C10, as stated, fails: a row of one field after five kept rows does not abort the run,
  and neither does such a row in the file of a gene without exons. Both runs end with the
  completion message.
\<close>

theorem short_row_counterexample:
  "read_tsv_files_in_directory_and_write_output service_one_exon
     (Some [(''geneA.tsv'', Some (map Row (header_row # replicate 5 good_row @ [short_row])))]) True =
   \<lparr>requests = 6,
     output_file = [''geneA'', ''====='',
       ''[ACGT]  Efficiency Score: [0.7]  Exon number: 1'',
       ''[ACGT]  Efficiency Score: [0.7]  Exon number: 1'',
       ''[ACGT]  Efficiency Score: [0.7]  Exon number: 1'',
       ''[ACGT]  Efficiency Score: [0.7]  Exon number: 1'',
       ''[ACGT]  Efficiency Score: [0.7]  Exon number: 1'', ''''],
     messages = [ProcessedAll], progress = 1\<rparr> \<and>
   read_tsv_files_in_directory_and_write_output service_unknown
     (Some [(''geneB.tsv'', Some (map Row [header_row, short_row]))]) True =
   \<lparr>requests = 1, output_file = [],
    messages = [NoExonsFound ''geneB'' ''geneB.tsv'', ProcessedAll], progress = 1\<rparr>"
  by code_simp

text \<open>
  C10, amended: the files before have been processed without error, the gene of the file
  has exons, the reader delivers the header, and the scan of the records before has kept
  fewer than five rows when the reader delivers a non-empty row of fewer than three
  fields. Then the run ends there with the one error message of the top-level handler,
  for an IndexError, whatever records and files follow. An empty row that the scan
  reaches with fewer than five rows kept is skipped: the scan goes on as if the row were
  not there.
\<close>

theorem short_row_aborts:
  assumes "process_files svc pre init_world = (Inr (), s1)"
    and "endswith name ''.tsv''"
    and "svc (requests s1) (splitext_root name) = Transcripts ts" and "concat ts \<noteq> []"
    and "calculate_exon_threshold (int (length (concat ts))) = Inr thr"
    and "scan_rows svc (splitext_root name) thr before 0
           (s1\<lparr>requests := Suc (requests s1),
               output_file := output_file s1 @
                 [splitext_root name, replicate (length (splitext_root name)) (CHR ''='')]\<rparr>) =
         (Inr c, s3)"
    and "c < 5"
    and "row \<noteq> []" and "length row < 3"
  shows "read_tsv_files_in_directory_and_write_output svc
           (Some (pre @ (name, Some (Row header # before @ Row row # after)) # post)) True =
         s3\<lparr>messages := messages s3 @ [ErrorOccurred IndexError]\<rparr> \<and>
         (\<forall>m \<in> set (messages s3). \<exists>g f. m = NoExonsFound g f) \<and>
         scan_rows svc g' thr' (Row [] # items) count s =
           (if count < 5 then scan_rows svc g' thr' items count s else (Inr count, s))"
proof -
  have "process_row svc (splitext_root name) thr row s3 = (Inl IndexError, s3)"
    using assms(9) by (rule process_row_short)
  from abort_at_row[OF assms(1-8) this, of header after post]
  have a: "read_tsv_files_in_directory_and_write_output svc
           (Some (pre @ (name, Some (Row header # before @ Row row # after)) # post)) True =
         s3\<lparr>messages := messages s3 @ [ErrorOccurred IndexError]\<rparr>"
    and b: "\<forall>m \<in> set (messages s3). \<exists>g f. m = NoExonsFound g f"
    by simp_all
  have "scan_rows svc g' thr' (Row [] # items) count s =
          (if count < 5 then scan_rows svc g' thr' items count s else (Inr count, s))"
    by simp
  with a b show ?thesis
    by (simp del: scan_rows.simps)
qed

theorem short_row_aborts_witness:
  "read_tsv_files_in_directory_and_write_output service_one_exon
     (Some [(''geneA.tsv'', Some (map Row [header_row, good_row, short_row, good_row])),
            (''geneC.tsv'', Some (map Row [header_row, good_row]))]) True =
   \<lparr>requests = 2,
    output_file = [''geneA'', ''====='', ''[ACGT]  Efficiency Score: [0.7]  Exon number: 1''],
    messages = [ErrorOccurred IndexError],
    progress = 0\<rparr>"
proof -
  let ?s3 = "\<lparr>requests = 2,
    output_file = [''geneA'', ''====='', ''[ACGT]  Efficiency Score: [0.7]  Exon number: 1''],
    messages = [], progress = 0\<rparr>"
  have h1: "process_files service_one_exon [] init_world = (Inr (), init_world)"
    by simp
  have h2: "endswith ''geneA.tsv'' ''.tsv''"
    by code_simp
  have h3: "service_one_exon (requests init_world) (splitext_root ''geneA.tsv'') =
            Transcripts [[\<lparr>exon_start = 1, exon_end = 100\<rparr>]]"
    by (simp add: service_one_exon_def)
  have h4: "concat [[\<lparr>exon_start = 1, exon_end = 100\<rparr>]] \<noteq> []"
    by simp
  have h5: "calculate_exon_threshold (int (length (concat [[\<lparr>exon_start = 1, exon_end = 100\<rparr>]]))) = Inr 1"
    by (simp add: threshold_small)
  have h6: "scan_rows service_one_exon (splitext_root ''geneA.tsv'') 1 [Row good_row] 0
           (init_world\<lparr>requests := Suc (requests init_world),
               output_file := output_file init_world @
                 [splitext_root ''geneA.tsv'',
                  replicate (length (splitext_root ''geneA.tsv'')) (CHR ''='')]\<rparr>) =
         (Inr 1, ?s3)"
    by code_simp
  have h7: "(1::nat) < 5" by simp
  have h8: "short_row \<noteq> []" by (simp add: short_row_def)
  have h9: "length short_row < 3" by (simp add: short_row_def)
  from short_row_aborts[OF h1 h2 h3 h4 h5 h6 h7 h8 h9,
      of header_row "[Row good_row]" "[(''geneC.tsv'', Some (map Row [header_row, good_row]))]"]
  show ?thesis by simp
qed

subsection \<open>The requests of the classifier\<close>

text \<open>
  C3, as stated, fails: for a file with one data row the run sends two requests, one in
  step 3 and one for the row, and the row is classified against the answer to the second.
  The position 50 lies in the first exon of the list of step 3, whose ordinal 1 is within
  the threshold 1, yet the row is not kept, because the second answer has no exon around
  50.
\<close>

theorem classification_fetches_counterexample:
  "read_tsv_files_in_directory_and_write_output service_drift
     (Some [(''geneA.tsv'', Some (map Row [header_row, good_row]))]) True =
   \<lparr>requests = 2, output_file = [''geneA'', ''====='', ''''],
    messages = [ProcessedAll], progress = 1\<rparr> \<and>
   service_drift 0 ''geneA'' = Transcripts [[\<lparr>exon_start = 1, exon_end = 100\<rparr>]] \<and>
   row_position good_row = Some 50 \<and>
   find_exon_loop 1 [\<lparr>exon_start = 1, exon_end = 100\<rparr>] 50 = Some 1 \<and>
   calculate_exon_threshold 1 = Inr 1"
  by code_simp

text \<open>
  C3, amended: the classifier keeps no state between calls and has one effect, a request
  to the locator. Every call sends exactly one request and changes nothing else; its
  result depends only on the answer to that request and on the coordinate. During record
  scanning each non-empty row that carries a position sends one request of its own and
  is classified against the exon list of that answer.
\<close>

theorem classification_fetches:
  "snd (find_exon svc chromosome coordinate gene_name s) = s\<lparr>requests := Suc (requests s)\<rparr> \<and>
   (svc (requests s) gene_name = svc' (requests s') gene_name' \<longrightarrow>
      fst (find_exon svc chromosome coordinate gene_name s) =
      fst (find_exon svc' chromosome' coordinate gene_name' s')) \<and>
   (row \<noteq> [] \<and> row_position row = Some pos \<and> svc (requests s) gene_name = Transcripts ts \<longrightarrow>
      requests (snd (process_row svc gene_name thr row s)) = Suc (requests s) \<and>
      fst (process_row svc gene_name thr row s) = Inr (qualifying (concat ts) thr row))"
proof (intro conjI impI)
  show "snd (find_exon svc chromosome coordinate gene_name s) = s\<lparr>requests := Suc (requests s)\<rparr>"
    by (simp add: find_exon_eq)
next
  assume "svc (requests s) gene_name = svc' (requests s') gene_name'"
  then show "fst (find_exon svc chromosome coordinate gene_name s) =
      fst (find_exon svc' chromosome' coordinate gene_name' s')"
    by (simp add: find_exon_eq)
next
  assume h: "row \<noteq> [] \<and> row_position row = Some pos \<and> svc (requests s) gene_name = Transcripts ts"
  then have ts: "svc (requests s) gene_name = Transcripts ts" and pos: "row_position row = Some pos"
    and ne: "row \<noteq> []"
    by simp_all
  note pr = process_row_qualifying[where svc = svc and s = s and g = gene_name and thr = thr,
      OF ts pos ne]
  show "requests (snd (process_row svc gene_name thr row s)) = Suc (requests s)"
    by (simp add: pr)
  show "fst (process_row svc gene_name thr row s) = Inr (qualifying (concat ts) thr row)"
    by (simp add: pr)
qed

theorem classification_fetches_witness:
  "requests (snd (process_row service_drift ''geneA'' 1 good_row
       (init_world\<lparr>requests := 1\<rparr>))) = 2 \<and>
   fst (process_row service_drift ''geneA'' 1 good_row (init_world\<lparr>requests := 1\<rparr>)) =
     Inr False \<and>
   fst (find_exon service_drift ''1'' 250 ''geneA'' (init_world\<lparr>requests := 1\<rparr>)) =
   fst (find_exon service_drift ''2'' 250 ''geneB'' (init_world\<lparr>requests := 7\<rparr>))"
proof -
  let ?s = "init_world\<lparr>requests := 1\<rparr>"
  have h1: "good_row \<noteq> []" by (simp add: good_row_def)
  have h2: "row_position good_row = Some 50" by code_simp
  have h3: "service_drift (requests ?s) ''geneA'' =
            Transcripts [[\<lparr>exon_start = 200, exon_end = 300\<rparr>]]"
    by (simp add: service_drift_def)
  have h4: "service_drift (requests ?s) ''geneA'' =
            service_drift (requests (init_world\<lparr>requests := 7\<rparr>)) ''geneB''"
    by (simp add: service_drift_def)
  have q: "qualifying (concat [[\<lparr>exon_start = 200, exon_end = 300\<rparr>]]) 1 good_row = False"
    by code_simp
  note t = classification_fetches[of service_drift "''1''" 250 "''geneA''" ?s service_drift
      "init_world\<lparr>requests := 7\<rparr>" "''geneB''" "''2''" good_row 50
      "[[\<lparr>exon_start = 200, exon_end = 300\<rparr>]]" 1]
  from t[THEN conjunct2, THEN conjunct2, rule_format, OF conjI[OF h1 conjI[OF h2 h3]]]
  have a: "requests (snd (process_row service_drift ''geneA'' 1 good_row ?s)) = 2"
    and b: "fst (process_row service_drift ''geneA'' 1 good_row ?s) = Inr False"
    unfolding q by simp_all
  from t[THEN conjunct2, THEN conjunct1, rule_format, OF h4]
  have "fst (find_exon service_drift ''1'' 250 ''geneA'' ?s) =
      fst (find_exon service_drift ''2'' 250 ''geneB'' (init_world\<lparr>requests := 7\<rparr>))" .
  with a b show ?thesis by simp
qed

subsection \<open>The label\<close>

text \<open>
  C7: the label of a row is its second field when the field has at most three
  characters; when it has more, the label is the field without its last three characters.
  The line written for a kept row carries that label.
\<close>

theorem second_cell_label:
  "(length cell \<le> 3 \<longrightarrow> second_cell cell = cell) \<and>
   (3 < length cell \<longrightarrow>
      length (second_cell cell) = length cell - 3 \<and>
      (\<exists>suffix. length suffix = 3 \<and> cell = second_cell cell @ suffix)) \<and>
   second_cell ''ACGTCCC'' = ''ACGT'' \<and> second_cell ''AT'' = ''AT'' \<and>
   (fst (process_row svc gene_name thr row s) = Inr True \<longrightarrow>
      (\<exists>n. output_file (snd (process_row svc gene_name thr row s)) =
             output_file s @ [format_line (second_cell (row ! 1)) (last row) n]))"
proof (intro conjI impI)
  show "second_cell cell = cell" if "length cell \<le> 3"
    using that by (simp add: second_cell_def)
  show "length (second_cell cell) = length cell - 3" if "3 < length cell"
    using that by (simp add: second_cell_def)
  show "\<exists>suffix. length suffix = 3 \<and> cell = second_cell cell @ suffix" if "3 < length cell"
    using that
    by (intro exI[of _ "drop (length cell - 3) cell"]) (simp add: second_cell_def)
  show "second_cell ''ACGTCCC'' = ''ACGT''"
    by (simp add: second_cell_def)
  show "second_cell ''AT'' = ''AT''"
    by (simp add: second_cell_def)
  show "\<exists>n. output_file (snd (process_row svc gene_name thr row s)) =
             output_file s @ [format_line (second_cell (row ! 1)) (last row) n]"
    if k: "fst (process_row svc gene_name thr row s) = Inr True"
  proof -
    obtain r s' where p: "process_row svc gene_name thr row s = (r, s')"
      by (cases "process_row svc gene_name thr row s")
    with k have "r = Inr True" by simp
    with process_row_effect[OF p] p show ?thesis by simp
  qed
qed

theorem second_cell_label_witness:
  "length (second_cell ''GGTACCA'') = 4 \<and> second_cell ''GGT'' = ''GGT'' \<and>
   (\<exists>n. output_file (snd (process_row service_one_exon ''geneA'' 1 good_row init_world)) =
          [format_line ''ACGT'' ''0.7'' n])"
proof -
  have k: "fst (process_row service_one_exon ''geneA'' 1 good_row init_world) = Inr True"
    by code_simp
  have sc: "second_cell (good_row ! 1) = ''ACGT''"
    by code_simp
  have l: "last good_row = ''0.7''"
    by code_simp
  have o: "output_file init_world = []"
    by (simp add: init_world_def)
  note t = second_cell_label[of _ service_one_exon "''geneA''" 1 good_row init_world]
  from t[of "''GGTACCA''"] have a: "length (second_cell ''GGTACCA'') = 4"
    by simp
  from t[of "''GGT''"] have b: "second_cell ''GGT'' = ''GGT''"
    by simp
  from t[of "[]", THEN conjunct2, THEN conjunct2, THEN conjunct2, THEN conjunct2,
      rule_format, OF k]
  have "\<exists>n. output_file (snd (process_row service_one_exon ''geneA'' 1 good_row init_world)) =
          [format_line ''ACGT'' ''0.7'' n]"
    unfolding sc l o by simp
  with a b show ?thesis by simp
qed

subsection \<open>The chromosome\<close>

text \<open>
  C8: the classifier does not look at the chromosome. Two calls that differ in the
  chromosome only return the same result and leave the same state, and two rows that
  differ only in the chromosome part of the coordinate field are both kept or both
  dropped.
\<close>

theorem chromosome_ignored:
  "find_exon svc c1 coordinate gene_name s = find_exon svc c2 coordinate gene_name s \<and>
   (CHR '':'' \<notin> set c1 \<and> CHR '':'' \<notin> set c2 \<and> CHR '':'' \<notin> set p \<longrightarrow>
      fst (process_row svc gene_name thr (a # b # (c1 @ CHR '':'' # p) # rest) s) =
      fst (process_row svc gene_name thr (a # b # (c2 @ CHR '':'' # p) # rest) s))"
proof (intro conjI impI)
  show "find_exon svc c1 coordinate gene_name s = find_exon svc c2 coordinate gene_name s"
    by (simp add: find_exon_def)
next
  assume "CHR '':'' \<notin> set c1 \<and> CHR '':'' \<notin> set c2 \<and> CHR '':'' \<notin> set p"
  then show "fst (process_row svc gene_name thr (a # b # (c1 @ CHR '':'' # p) # rest) s) =
      fst (process_row svc gene_name thr (a # b # (c2 @ CHR '':'' # p) # rest) s)"
    by (simp add: process_row_def str_split_pair find_exon_eq
             split: option.splits response.splits)
qed

theorem chromosome_ignored_witness:
  "find_exon service_one_exon ''1'' 50 ''geneA'' init_world =
   find_exon service_one_exon ''25'' 50 ''geneA'' init_world \<and>
   fst (process_row service_one_exon ''geneA'' 1
          [''guide1'', ''ACGTCCC'', ''chr1:50'', ''0.7''] init_world) = Inr True \<and>
   fst (process_row service_one_exon ''geneA'' 1
          [''guide1'', ''ACGTCCC'', ''chr25:50'', ''0.7''] init_world) = Inr True"
proof -
  have h: "CHR '':'' \<notin> set ''chr1'' \<and> CHR '':'' \<notin> set ''chr25'' \<and> CHR '':'' \<notin> set ''50''"
    by simp
  have k: "fst (process_row service_one_exon ''geneA'' 1
          [''guide1'', ''ACGTCCC'', ''chr1:50'', ''0.7''] init_world) = Inr True"
    by code_simp
  from chromosome_ignored[of service_one_exon "''1''" 50 "''geneA''" init_world "''25''"]
  have a: "find_exon service_one_exon ''1'' 50 ''geneA'' init_world =
   find_exon service_one_exon ''25'' 50 ''geneA'' init_world"
    by simp
  from chromosome_ignored[of service_one_exon "''chr1''" 50 "''geneA''" init_world "''chr25''"
      "''50''" 1 "''guide1''" "''ACGTCCC''" "[''0.7'']"] h k
  have "fst (process_row service_one_exon ''geneA'' 1
          [''guide1'', ''ACGTCCC'', ''chr25:50'', ''0.7''] init_world) = Inr True"
    by simp
  with a k show ?thesis by simp
qed

end
